theory Spec2Isabelle
  imports Main "HOL-Library.Sublist" "HOL-Library.Word" "HOL-Library.Log_Nat"
begin

section \<open>The shader source splitter: \<open>Application::ParseShader\<close>\<close>

subsection \<open>Data\<close>

text \<open>
  \<open>ShaderProgramSource\<close> is the struct returned by \<open>ParseShader\<close>; \<open>ShaderType\<close> is its
  nested enumeration.  The header that declares both is not among the sources, so the
  integer value of each enumerator (what \<open>(int)type\<close> yields) is a parameter \<open>cast\<close> of
  the model.
\<close>

datatype ShaderType = NONE | VERTEX | FRAGMENT

record ShaderProgramSource =
  VertexSource :: string
  FragmentSource :: string

text \<open>Ways in which a run can end without returning.\<close>

datatype halt =
    OutOfBounds       \<comment> \<open>indexing a built-in array outside its bounds (undefined behaviour)\<close>
  | NullPointer       \<comment> \<open>a member call through a null pointer (undefined behaviour)\<close>
  | AssertionFailed   \<comment> \<open>a failed \<open>ASSERT\<close>\<close>

definition newline :: char where
  "newline = CHR 0x0A"

subsection \<open>Library functions used by the splitter\<close>

text \<open>
  \<open>std::string::find(needle)\<close>: the position of the first occurrence of \<open>needle\<close>, or
  \<open>npos\<close> (here \<open>None\<close>).
\<close>

fun string_find :: "string \<Rightarrow> string \<Rightarrow> nat option" where
  "string_find [] needle = (if needle = [] then Some 0 else None)"
| "string_find (c # cs) needle =
     (if prefix needle (c # cs) then Some 0 else map_option Suc (string_find cs needle))"

text \<open>
  \<open>std::getline(stream, line)\<close> on the unread rest of a stream: it fails when nothing
  is left; otherwise it extracts the characters up to the next newline (which it
  consumes and drops) or up to the end of the stream.
\<close>

fun getline :: "string \<Rightarrow> (string \<times> string) option" where
  "getline [] = None"
| "getline (c # cs) =
     Some (takeWhile (\<lambda>x. x \<noteq> newline) (c # cs),
           drop 1 (dropWhile (\<lambda>x. x \<noteq> newline) (c # cs)))"

text \<open>
  \<open>ss[i] << text\<close> for the array \<open>std::stringstream ss[2]\<close>: the array is a list of the
  texts written so far; an index outside the array is undefined behaviour.
\<close>

definition ss_write :: "string list \<Rightarrow> int \<Rightarrow> string \<Rightarrow> halt + string list" where
  "ss_write ss i text =
     (if 0 \<le> i \<and> i < int (length ss) then Inr (ss[nat i := ss ! nat i @ text])
      else Inl OutOfBounds)"

text \<open>\<open>ss[i].str()\<close>, with the same bounds.\<close>

definition ss_str :: "string list \<Rightarrow> int \<Rightarrow> halt + string" where
  "ss_str ss i = (if 0 \<le> i \<and> i < int (length ss) then Inr (ss ! nat i) else Inl OutOfBounds)"

subsection \<open>The splitter\<close>

text \<open>The body of the \<open>while\<close> loop, for one line: the new \<open>type\<close> and \<open>ss\<close>.\<close>

definition ParseShader_body ::
  "(ShaderType \<Rightarrow> int) \<Rightarrow> string \<Rightarrow> ShaderType \<Rightarrow> string list
     \<Rightarrow> halt + (ShaderType \<times> string list)" where
  "ParseShader_body cast line type ss =
     (if string_find line ''#shader'' \<noteq> None then
        (if string_find line ''vertex'' \<noteq> None then Inr (VERTEX, ss)
         else if string_find line ''fragment'' \<noteq> None then Inr (FRAGMENT, ss)
         else Inr (type, ss))
      else
        (case ss_write ss (cast type) (line @ [newline]) of
           Inl e \<Rightarrow> Inl e
         | Inr ss' \<Rightarrow> Inr (type, ss')))"

lemma getline_shorter: "getline s = Some (line, s') \<Longrightarrow> length s' < length s"
proof (cases s)
  case Nil
  assume "getline s = Some (line, s')"
  with Nil show ?thesis by simp
next
  case (Cons c cs)
  assume "getline s = Some (line, s')"
  with Cons have "s' = drop 1 (dropWhile (\<lambda>x. x \<noteq> newline) s)" by simp
  moreover have "length (dropWhile (\<lambda>x. x \<noteq> newline) s) \<le> length s"
    by (rule length_dropWhile_le)
  ultimately show ?thesis using Cons by simp
qed

text \<open>The loop \<open>while (getline(stream, line))\<close> over the unread rest of the stream.\<close>

function ParseShader_loop ::
  "(ShaderType \<Rightarrow> int) \<Rightarrow> string \<Rightarrow> ShaderType \<Rightarrow> string list \<Rightarrow> halt + string list" where
  "ParseShader_loop cast stream type ss =
     (case getline stream of
        None \<Rightarrow> Inr ss
      | Some (line, stream') \<Rightarrow>
          (case ParseShader_body cast line type ss of
             Inl e \<Rightarrow> Inl e
           | Inr (type', ss') \<Rightarrow> ParseShader_loop cast stream' type' ss'))"
  by pat_completeness auto

termination
  by (relation "measure (\<lambda>(cast, stream, type, ss). length stream)")
     (auto dest: getline_shorter)

declare ParseShader_loop.simps [simp del]

text \<open>
  \<open>ParseShader\<close> on the text of the stream.  \<open>stream\<close> is \<open>None\<close> when the file could not
  be opened: the stream is then in a failed state and the first \<open>getline\<close> fails, so the
  loop body never runs.
\<close>

definition ParseShader_stream ::
  "(ShaderType \<Rightarrow> int) \<Rightarrow> string option \<Rightarrow> halt + ShaderProgramSource" where
  "ParseShader_stream cast stream =
     (case (case stream of None \<Rightarrow> Inr [[], []]
                         | Some text \<Rightarrow> ParseShader_loop cast text NONE [[], []]) of
        Inl e \<Rightarrow> Inl e
      | Inr ss \<Rightarrow>
          (case ss_str ss (cast VERTEX) of
             Inl e \<Rightarrow> Inl e
           | Inr v \<Rightarrow>
               (case ss_str ss (cast FRAGMENT) of
                  Inl e \<Rightarrow> Inl e
                | Inr f \<Rightarrow> Inr \<lparr>VertexSource = v, FragmentSource = f\<rparr>)))"

text \<open>
  \<open>ParseShader(filepath)\<close>: \<open>std::ifstream stream(filepath)\<close> looks the path up in the file
  system \<open>fs\<close>, a map from the paths that can be opened to their contents.
\<close>

definition ParseShader ::
  "(ShaderType \<Rightarrow> int) \<Rightarrow> (string \<rightharpoonup> string) \<Rightarrow> string \<Rightarrow> halt + ShaderProgramSource" where
  "ParseShader cast fs filepath = ParseShader_stream cast (fs filepath)"


section \<open>The program builder and the draw loop\<close>

subsection \<open>Numbers\<close>

text \<open>
  \<open>unsigned int\<close> and \<open>int\<close> are 32 bits wide; an \<open>int\<close> is read in two's complement
  (\<open>sint\<close>), so \<open>- 1\<close> is the word of all ones.
\<close>

type_synonym GLuint = "32 word"
type_synonym GLenum = "32 word"
type_synonym GLint = "32 word"

text \<open>
  A \<open>float\<close> is an IEEE 754 binary32 number, modelled by the rational it denotes.
  \<open>f32 x\<close> rounds the rational \<open>x\<close> to the nearest such number, ties to the even
  significand: in units of \<open>2\<^sup>-\<^sup>1\<^sup>4\<^sup>9\<close> (the spacing of the smallest floats) a float is an
  integer of at most 24 significant bits.  Magnitudes from \<open>2\<^sup>1\<^sup>2\<^sup>8\<close> on, which round to
  infinity, are outside the model; the program's floats stay below 2.
\<close>

type_synonym float32 = rat

definition round_even :: "rat \<Rightarrow> int" where
  "round_even x =
     (let n = \<lfloor>x\<rfloor>; d = x - of_int n
      in if d < 1 / 2 then n else if 1 / 2 < d then n + 1 else if even n then n else n + 1)"

definition f32 :: "rat \<Rightarrow> float32" where
  "f32 x =
     (let y = x * 2 ^ 149;
          q = 2 ^ nat (bitlen \<lfloor>\<bar>y\<bar>\<rfloor> - 24)
      in of_int (round_even (y / of_int q) * q) / 2 ^ 149)"

text \<open>\<open>a + b\<close> on floats: the exact sum, rounded.\<close>

definition f32_add :: "float32 \<Rightarrow> float32 \<Rightarrow> float32" where
  "f32_add a b = f32 (a + b)"

text \<open>Constants of \<open>GL/glew.h\<close>.\<close>

definition GL_FALSE :: GLint where "GL_FALSE = 0"
definition GL_TRIANGLES :: GLenum where "GL_TRIANGLES = 0x0004"
definition GL_UNSIGNED_INT :: GLenum where "GL_UNSIGNED_INT = 0x1405"
definition GL_ARRAY_BUFFER :: GLenum where "GL_ARRAY_BUFFER = 0x8892"
definition GL_ELEMENT_ARRAY_BUFFER :: GLenum where "GL_ELEMENT_ARRAY_BUFFER = 0x8893"
definition GL_FRAGMENT_SHADER :: GLenum where "GL_FRAGMENT_SHADER = 0x8B30"
definition GL_VERTEX_SHADER :: GLenum where "GL_VERTEX_SHADER = 0x8B31"
definition GL_COMPILE_STATUS :: GLenum where "GL_COMPILE_STATUS = 0x8B81"
definition GL_INFO_LOG_LENGTH :: GLenum where "GL_INFO_LOG_LENGTH = 0x8B84"

subsection \<open>The graphics API and the other collaborators\<close>

text \<open>
  The objects behind the pointers \<open>vb\<close>, \<open>ib\<close> and \<open>va\<close>.  Their classes are collaborators
  outside the sources: an object is what its constructor was given, a call of one of its
  methods is an event.
\<close>

datatype VertexBuffer = VertexBuffer "float32 list" nat
datatype IndexBuffer = IndexBuffer "32 word list" nat
datatype VertexArray = VertexArray

text \<open>
  The calls the program makes on the graphics API and on its collaborators, with their
  arguments (buffers that only receive a result are left out).
\<close>

datatype gl_call =
    GlCreateShader GLenum
  | GlShaderSource GLuint string
  | GlCompileShader GLuint
  | GlGetShaderiv GLuint GLenum
  | GlGetShaderInfoLog GLuint GLint
  | GlDeleteShader GLuint
  | GlCreateProgram
  | GlAttachShader GLuint GLuint
  | GlLinkProgram GLuint
  | GlValidateProgram GLuint
  | GlUseProgram GLuint
  | GlGetUniformLocation GLuint string
  | GlUniform4f GLint float32 float32 float32 float32
  | GlBindBuffer GLenum GLuint
  | GlDrawElements GLenum GLint GLenum
  | NewVertexBuffer VertexBuffer
  | NewIndexBuffer IndexBuffer
  | VertexArray_AddBuffer VertexArray VertexBuffer "nat list"
  | VertexArray_Bind VertexArray
  | VertexArray_Unbind VertexArray
  | IndexBuffer_Bind IndexBuffer

text \<open>
  The driver: what the graphics API answers.  Every answer is a function of the calls made
  so far, the call being answered last, so a driver with any internal state is covered.
\<close>

record driver =
  uint_result :: "gl_call list \<Rightarrow> GLuint"
    \<comment> \<open>the handle returned by \<open>glCreateShader\<close> or \<open>glCreateProgram\<close>\<close>
  int_result :: "gl_call list \<Rightarrow> GLint"
    \<comment> \<open>the integer returned, or stored through the pointer argument\<close>
  log_result :: "gl_call list \<Rightarrow> string"
    \<comment> \<open>the text \<open>std::cout << message\<close> finds in the buffer after \<open>glGetShaderInfoLog\<close>\<close>
  call_ok :: "gl_call list \<Rightarrow> bool"
    \<comment> \<open>whether the error check of \<open>CALL\<close> finds nothing after the call\<close>

text \<open>What the program has done to the outside: its calls, and what it wrote to \<open>std::cout\<close>.\<close>

record world =
  calls :: "gl_call list"
  cout :: string

definition gl :: "gl_call \<Rightarrow> world \<Rightarrow> world" where
  "gl c w = w\<lparr>calls := calls w @ [c]\<rparr>"

definition print :: "string \<Rightarrow> world \<Rightarrow> world" where
  "print text w = w\<lparr>cout := cout w @ text\<rparr>"

text \<open>Sequencing of steps that can halt.\<close>

definition and_then :: "halt + 'a \<Rightarrow> ('a \<Rightarrow> halt + 'b) \<Rightarrow> halt + 'b" where
  "and_then m f = (case m of Inl e \<Rightarrow> Inl e | Inr x \<Rightarrow> f x)"

text \<open>
  Modelled from the spec: the macros \<open>ASSERT\<close> and \<open>CALL\<close> of \<open>Renderer.h\<close>, which is not
  among the sources.  The spec has the missing uniform "checked explicitly" so that it
  "must halt setup", and every fallible API call "wrapped so that its error state is
  checked immediately after invocation", where "a debug-only assertion mechanism may
  halt execution on first detected error".  So \<open>ASSERT\<close> halts on a false condition, and
  \<open>CALL\<close> makes the call and then asserts the check \<open>call_ok\<close>, a parameter of the driver.
\<close>

definition ASSERT :: "bool \<Rightarrow> 'a \<Rightarrow> halt + 'a" where
  "ASSERT cond w = (if cond then Inr w else Inl AssertionFailed)"

definition CALL :: "driver \<Rightarrow> gl_call \<Rightarrow> world \<Rightarrow> halt + world" where
  "CALL drv c w = (let w' = gl c w in ASSERT (call_ok drv (calls w')) w')"

text \<open>\<open>source.c_str()\<close> as the API reads it: the characters before the first NUL.\<close>

definition c_str :: "string \<Rightarrow> string" where
  "c_str source = takeWhile (\<lambda>c. c \<noteq> CHR 0x00) source"

subsection \<open>\<open>Application::CompileShader\<close> and \<open>Application::CreateShader\<close>\<close>

definition CompileShader :: "driver \<Rightarrow> GLenum \<Rightarrow> string \<Rightarrow> world \<Rightarrow> halt + (GLuint \<times> world)" where
  "CompileShader drv type source w0 =
     (let w1 = gl (GlCreateShader type) w0;
          id = uint_result drv (calls w1)
      in and_then (CALL drv (GlShaderSource id (c_str source)) w1) (\<lambda>w2.
         and_then (CALL drv (GlCompileShader id) w2) (\<lambda>w3.
         and_then (CALL drv (GlGetShaderiv id GL_COMPILE_STATUS) w3) (\<lambda>w4.
         let result = int_result drv (calls w4)
         in if result = GL_FALSE then
              and_then (CALL drv (GlGetShaderiv id GL_INFO_LOG_LENGTH) w4) (\<lambda>w5.
              let length = int_result drv (calls w5)
              in and_then (CALL drv (GlGetShaderInfoLog id length) w5) (\<lambda>w6.
                 let message = log_result drv (calls w6);
                     w7 = print (''Failed to compile ''
                                 @ (if type = GL_VERTEX_SHADER then ''vertex'' else ''fragment'')
                                 @ '' shader!'' @ [newline]) w6;
                     w8 = print (message @ [newline]) w7
                 in and_then (CALL drv (GlDeleteShader id) w8) (\<lambda>w9.
                    Inr (0, w9))))
            else Inr (id, w4)))))"

definition CreateShader :: "driver \<Rightarrow> string \<Rightarrow> string \<Rightarrow> world \<Rightarrow> halt + (GLuint \<times> world)" where
  "CreateShader drv vertexShader fragmentShader w0 =
     (let w1 = gl GlCreateProgram w0;
          program = uint_result drv (calls w1)
      in and_then (CompileShader drv GL_VERTEX_SHADER vertexShader w1) (\<lambda>(vs, w2).
         and_then (CompileShader drv GL_FRAGMENT_SHADER fragmentShader w2) (\<lambda>(fs, w3).
         and_then (CALL drv (GlAttachShader program vs) w3) (\<lambda>w4.
         and_then (CALL drv (GlAttachShader program fs) w4) (\<lambda>w5.
         and_then (CALL drv (GlLinkProgram program) w5) (\<lambda>w6.
         and_then (CALL drv (GlValidateProgram program) w6) (\<lambda>w7.
         and_then (CALL drv (GlDeleteShader vs) w7) (\<lambda>w8.
         and_then (CALL drv (GlDeleteShader fs) w8) (\<lambda>w9.
         Inr (program, w9))))))))))"

subsection \<open>The application object, \<open>init\<close> and \<open>render\<close>\<close>

text \<open>
  The members of \<open>Application\<close> (a pointer is \<open>None\<close> when null), together with \<open>render_r\<close>,
  the variable \<open>static float r\<close> of \<open>render\<close>, which lives as long as the program.
\<close>

record Application =
  m_Shader :: GLuint
  m_Increment :: float32
  m_UniformLoc :: GLint
  va :: "VertexArray option"
  vb :: "VertexBuffer option"
  ib :: "IndexBuffer option"
  render_r :: float32

text \<open>The constructor's initialiser list, and the initialiser of \<open>r\<close>.\<close>

definition Application_new :: Application where
  "Application_new =
     \<lparr>m_Shader = 0, m_Increment = f32 (5 / 100), m_UniformLoc = 0,
      va = None, vb = None, ib = None, render_r = f32 0\<rparr>"

definition init ::
  "driver \<Rightarrow> (ShaderType \<Rightarrow> int) \<Rightarrow> (string \<rightharpoonup> string) \<Rightarrow> Application \<Rightarrow> world
     \<Rightarrow> halt + (Application \<times> world)" where
  "init drv cast fs app w0 =
     (let positions = [- f32 (5 / 10), - f32 (5 / 10),
                       f32 (5 / 10), - f32 (5 / 10),
                       f32 (5 / 10), f32 (5 / 10),
                       - f32 (5 / 10), f32 (5 / 10)];
          indices = [0, 1, 2, 2, 3, 0];
          new_vb = VertexBuffer positions (4 * 2 * 4);
          w1 = gl (NewVertexBuffer new_vb) w0;
          layout = [2]
      in case va app of
           None \<Rightarrow> Inl NullPointer
         | Some a \<Rightarrow>
             (let w2 = gl (VertexArray_AddBuffer a new_vb layout) w1;
                  new_ib = IndexBuffer indices 6;
                  w3 = gl (NewIndexBuffer new_ib) w2
              in and_then (ParseShader cast fs ''res/shaders/Basic.shader'') (\<lambda>source.
                 and_then (CreateShader drv (VertexSource source) (FragmentSource source) w3)
                   (\<lambda>(shader, w4).
                 and_then (CALL drv (GlUseProgram shader) w4) (\<lambda>w5.
                 and_then (CALL drv (GlGetUniformLocation shader ''u_Color'') w5) (\<lambda>w6.
                 let loc = int_result drv (calls w6)
                 in and_then (ASSERT (loc \<noteq> - 1) w6) (\<lambda>w7.
                    and_then (CALL drv (GlUniform4f loc (f32 0) (f32 (3 / 10)) (f32 (8 / 10)) (f32 1)) w7)
                      (\<lambda>w8.
                    let w9 = gl (VertexArray_Unbind a) w8
                    in and_then (CALL drv (GlUseProgram 0) w9) (\<lambda>w10.
                       and_then (CALL drv (GlBindBuffer GL_ARRAY_BUFFER 0) w10) (\<lambda>w11.
                       and_then (CALL drv (GlBindBuffer GL_ELEMENT_ARRAY_BUFFER 0) w11) (\<lambda>w12.
                       Inr (app\<lparr>vb := Some new_vb, ib := Some new_ib,
                                 m_Shader := shader, m_UniformLoc := loc\<rparr>, w12))))))))))))"

text \<open>The colour cycle at the end of \<open>render\<close>: the new \<open>r\<close> and \<open>m_Increment\<close>.\<close>

definition color_cycle :: "float32 \<times> float32 \<Rightarrow> float32 \<times> float32" where
  "color_cycle s =
     (let r = fst s;
          inc1 = (if 1 < r then - f32 (1 / 100) else snd s);
          inc2 = (if r < 0 then f32 (1 / 100) else inc1)
      in (f32_add r inc2, inc2))"

definition render :: "driver \<Rightarrow> Application \<Rightarrow> world \<Rightarrow> halt + (Application \<times> world)" where
  "render drv app w0 =
     and_then (CALL drv (GlUseProgram (m_Shader app)) w0) (\<lambda>w1.
     and_then (CALL drv (GlUniform4f (m_UniformLoc app) (render_r app)
                           (f32 (3 / 10)) (f32 (8 / 10)) (f32 1)) w1) (\<lambda>w2.
     case va app of
       None \<Rightarrow> Inl NullPointer
     | Some a \<Rightarrow>
         (case ib app of
            None \<Rightarrow> Inl NullPointer
          | Some i \<Rightarrow>
              (let w3 = gl (VertexArray_Bind a) w2;
                   w4 = gl (IndexBuffer_Bind i) w3
               in and_then (CALL drv (GlDrawElements GL_TRIANGLES 6 GL_UNSIGNED_INT) w4) (\<lambda>w5.
                  let s = color_cycle (render_r app, m_Increment app)
                  in Inr (app\<lparr>render_r := fst s, m_Increment := snd s\<rparr>, w5))))))"

text \<open>The draw loop: \<open>render\<close> called once per frame, \<open>n\<close> times.\<close>

fun frames :: "driver \<Rightarrow> nat \<Rightarrow> Application \<Rightarrow> world \<Rightarrow> halt + (Application \<times> world)" where
  "frames drv 0 app w = Inr (app, w)"
| "frames drv (Suc n) app w =
     and_then (render drv app w) (\<lambda>(app', w'). frames drv n app' w')"


section \<open>What the splitter is to compute\<close>

subsection \<open>Lines, markers and sections\<close>

text \<open>
  The lines of a text: the pieces between newlines; a last piece without its newline counts
  when it is not empty.
\<close>

fun text_lines :: "string \<Rightarrow> string list" where
  "text_lines [] = []"
| "text_lines (c # cs) =
     (if c = newline then [] # text_lines cs
      else (case text_lines cs of [] \<Rightarrow> [[c]] | l # ls \<Rightarrow> (c # l) # ls))"

text \<open>The loop of \<open>ParseShader\<close> as a run over a list of lines, returning \<open>type\<close> as well.\<close>

fun ParseShader_lines ::
  "(ShaderType \<Rightarrow> int) \<Rightarrow> string list \<Rightarrow> ShaderType \<Rightarrow> string list
     \<Rightarrow> halt + (ShaderType \<times> string list)" where
  "ParseShader_lines cast [] type ss = Inr (type, ss)"
| "ParseShader_lines cast (line # lines) type ss =
     (case ParseShader_body cast line type ss of
        Inl e \<Rightarrow> Inl e
      | Inr (type', ss') \<Rightarrow> ParseShader_lines cast lines type' ss')"

text \<open>
  The spec's input format: a marker line is \<open>#shader vertex\<close> or \<open>#shader fragment\<close>, and the
  marker lines of a text are well-formed when no other line contains \<open>#shader\<close>.
\<close>

definition marker_line :: "string \<Rightarrow> bool" where
  "marker_line l = (l = ''#shader vertex'' \<or> l = ''#shader fragment'')"

definition well_formed_markers :: "string list \<Rightarrow> bool" where
  "well_formed_markers ls = (\<forall>l \<in> set ls. string_find l ''#shader'' \<noteq> None \<longrightarrow> marker_line l)"

text \<open>
  The most recent marker among the lines read so far, and the text of a section: the lines
  that are no markers and whose most recent marker is the section's, in their order, each
  followed by one newline.
\<close>

definition last_marker :: "string list \<Rightarrow> string option" where
  "last_marker ls = List.find marker_line (rev ls)"

definition section_text :: "string \<Rightarrow> string list \<Rightarrow> string" where
  "section_text m ls =
     concat (map (\<lambda>i. ls ! i @ [newline])
       (filter (\<lambda>i. \<not> marker_line (ls ! i) \<and> last_marker (take i ls) = Some m) [0..<length ls]))"

text \<open>No line of content comes before the first marker line.\<close>

definition content_after_marker :: "string list \<Rightarrow> bool" where
  "content_after_marker ls = (case ls of [] \<Rightarrow> True | l # _ \<Rightarrow> marker_line l)"

text \<open>
  A text that consists of whole lines, none of which contains \<open>#shader\<close>.
\<close>

definition unmarked :: "string \<Rightarrow> bool" where
  "unmarked s =
     ((s = [] \<or> last s = newline) \<and> (\<forall>l \<in> set (text_lines s). string_find l ''#shader'' = None))"

text \<open>The section that the most recent marker line has opened.\<close>

definition marker_type :: "string option \<Rightarrow> ShaderType" where
  "marker_type m = (case m of None \<Rightarrow> NONE
                    | Some l \<Rightarrow> if l = ''#shader vertex'' then VERTEX else FRAGMENT)"

text \<open>The enumerators \<open>VERTEX\<close> and \<open>FRAGMENT\<close> index the two streams of \<open>ss\<close>, each its own.\<close>

definition slots_ok :: "(ShaderType \<Rightarrow> int) \<Rightarrow> bool" where
  "slots_ok cast = (cast VERTEX \<in> {0, 1} \<and> cast FRAGMENT \<in> {0, 1} \<and> cast VERTEX \<noteq> cast FRAGMENT)"

text \<open>The splitter returns, for each of the two sections, the text of that section.\<close>

definition splits_into_sections :: "(ShaderType \<Rightarrow> int) \<Rightarrow> string \<Rightarrow> bool" where
  "splits_into_sections cast text =
     (ParseShader_stream cast (Some text) =
        Inr \<lparr>VertexSource = section_text ''#shader vertex'' (text_lines text),
             FragmentSource = section_text ''#shader fragment'' (text_lines text)\<rparr>)"

subsection \<open>Concrete inputs\<close>

text \<open>
  An instance of the casts, for runs on concrete inputs: \<open>NONE = -1\<close>, \<open>VERTEX = 0\<close> and
  \<open>FRAGMENT = 1\<close>.
\<close>

definition cast_default :: "ShaderType \<Rightarrow> int" where
  "cast_default t = (case t of NONE \<Rightarrow> - 1 | VERTEX \<Rightarrow> 0 | FRAGMENT \<Rightarrow> 1)"

text \<open>The spec's end-to-end scenario, and texts with content outside every section.\<close>

definition text_scenario :: string where
  "text_scenario =
     ''#shader vertex'' @ newline # ''A'' @ newline # ''#shader fragment'' @ newline # ''B'' @ [newline]"

definition text_stray :: string where
  "text_stray = ''X'' @ newline # ''#shader vertex'' @ newline # ''A'' @ [newline]"

definition text_stray_both :: string where
  "text_stray_both = ''stray'' @ newline # text_scenario"

definition text_no_marker :: string where
  "text_no_marker = ''void main() {}'' @ [newline]"

text \<open>
  Texts whose second marker line names neither section: its keyword is \<open>vertexes\<close>, which
  has \<open>vertex\<close> in it, or \<open>geometry\<close>, which has neither \<open>vertex\<close> nor \<open>fragment\<close> in it.
\<close>

definition text_vertexes :: string where
  "text_vertexes =
     ''#shader fragment'' @ newline # ''B'' @ newline # ''#shader vertexes'' @ newline # ''C'' @ [newline]"

definition text_geometry :: string where
  "text_geometry =
     ''#shader fragment'' @ newline # ''B'' @ newline # ''#shader geometry'' @ newline # ''C'' @ [newline]"


section \<open>What the builder and the draw loop are to do\<close>

subsection \<open>The calls of a compilation, of a link and of a frame\<close>

text \<open>
  The calls with which every compilation begins, from the calls \<open>h\<close> made before it; the
  compilation has failed when the driver then answers \<open>GL_FALSE\<close> for the compile status.
\<close>

definition compile_calls :: "driver \<Rightarrow> GLenum \<Rightarrow> string \<Rightarrow> gl_call list \<Rightarrow> gl_call list" where
  "compile_calls drv type source h =
     (let id = uint_result drv (h @ [GlCreateShader type])
      in [GlCreateShader type, GlShaderSource id (c_str source), GlCompileShader id,
          GlGetShaderiv id GL_COMPILE_STATUS])"

definition compile_failed :: "driver \<Rightarrow> GLenum \<Rightarrow> string \<Rightarrow> gl_call list \<Rightarrow> bool" where
  "compile_failed drv type source h =
     (int_result drv (h @ compile_calls drv type source h) = GL_FALSE)"

text \<open>
  What the spec asks of a failed compilation: the length of the log is asked for first,
  then the log itself with exactly that length, then the unit is deleted; the text of the
  log is reported.
\<close>

definition failure_calls :: "driver \<Rightarrow> GLenum \<Rightarrow> string \<Rightarrow> gl_call list \<Rightarrow> gl_call list" where
  "failure_calls drv type source h =
     (let id = uint_result drv (h @ [GlCreateShader type]);
          h5 = h @ compile_calls drv type source h @ [GlGetShaderiv id GL_INFO_LOG_LENGTH];
          length = int_result drv h5
      in [GlGetShaderiv id GL_INFO_LOG_LENGTH, GlGetShaderInfoLog id length, GlDeleteShader id])"

definition failure_report :: "driver \<Rightarrow> GLenum \<Rightarrow> string \<Rightarrow> gl_call list \<Rightarrow> string" where
  "failure_report drv type source h =
     (let message = log_result drv (h @ compile_calls drv type source h
                                      @ butlast (failure_calls drv type source h))
      in ''Failed to compile '' @ (if type = GL_VERTEX_SHADER then ''vertex'' else ''fragment'')
         @ '' shader!'' @ [newline] @ message @ [newline])"

text \<open>
  What the spec asks after the two compilations: both units are attached, the program is
  linked and validated, and both units are deleted.  No call detaches a unit or asks for
  the link or validation status: the program makes no such call anywhere.
\<close>

definition link_calls :: "GLuint \<Rightarrow> GLuint \<Rightarrow> GLuint \<Rightarrow> gl_call list" where
  "link_calls program vs fs =
     [GlAttachShader program vs, GlAttachShader program fs, GlLinkProgram program,
      GlValidateProgram program, GlDeleteShader vs, GlDeleteShader fs]"

text \<open>The one call that resolves a uniform name.\<close>

definition is_lookup :: "gl_call \<Rightarrow> bool" where
  "is_lookup c = (case c of GlGetUniformLocation p s \<Rightarrow> True | _ \<Rightarrow> False)"

text \<open>
  A call that a frame may make once the location \<open>loc\<close> is cached: no uniform name is
  resolved, and a colour is set at \<open>loc\<close> with its three constant channels.
\<close>

definition frame_call :: "GLint \<Rightarrow> gl_call \<Rightarrow> bool" where
  "frame_call loc c =
     (case c of
        GlUniform4f l r g b a \<Rightarrow> l = loc \<and> g = f32 (3 / 10) \<and> b = f32 (8 / 10) \<and> a = f32 1
      | GlGetUniformLocation p s \<Rightarrow> False
      | _ \<Rightarrow> True)"

text \<open>The buffers of the quad, and the calls of \<open>init\<close> before and after the program is built.\<close>

definition quad_vb :: VertexBuffer where
  "quad_vb = VertexBuffer [- f32 (5 / 10), - f32 (5 / 10), f32 (5 / 10), - f32 (5 / 10),
                           f32 (5 / 10), f32 (5 / 10), - f32 (5 / 10), f32 (5 / 10)] 32"

definition quad_ib :: IndexBuffer where
  "quad_ib = IndexBuffer [0, 1, 2, 2, 3, 0] 6"

definition init_buffers :: "VertexArray \<Rightarrow> gl_call list" where
  "init_buffers a = [NewVertexBuffer quad_vb, VertexArray_AddBuffer a quad_vb [2], NewIndexBuffer quad_ib]"

definition init_uniform :: "VertexArray \<Rightarrow> GLuint \<Rightarrow> GLint \<Rightarrow> gl_call list" where
  "init_uniform a shader loc =
     [GlUseProgram shader, GlGetUniformLocation shader ''u_Color'',
      GlUniform4f loc (f32 0) (f32 (3 / 10)) (f32 (8 / 10)) (f32 1),
      VertexArray_Unbind a, GlUseProgram 0,
      GlBindBuffer GL_ARRAY_BUFFER 0, GlBindBuffer GL_ELEMENT_ARRAY_BUFFER 0]"

text \<open>The calls of one frame.\<close>

definition frame_calls :: "Application \<Rightarrow> VertexArray \<Rightarrow> IndexBuffer \<Rightarrow> gl_call list" where
  "frame_calls app a i =
     [GlUseProgram (m_Shader app),
      GlUniform4f (m_UniformLoc app) (render_r app) (f32 (3 / 10)) (f32 (8 / 10)) (f32 1),
      VertexArray_Bind a, IndexBuffer_Bind i, GlDrawElements GL_TRIANGLES 6 GL_UNSIGNED_INT]"

text \<open>
  The calls of \<open>n\<close> frames in a row: those of the first frame, then those of the frames that
  follow, for which the animated scalar and its step have advanced.
\<close>

fun draw_calls :: "nat \<Rightarrow> Application \<Rightarrow> VertexArray \<Rightarrow> IndexBuffer \<Rightarrow> gl_call list" where
  "draw_calls 0 app a i = []"
| "draw_calls (Suc n) app a i =
     frame_calls app a i @
     draw_calls n (app\<lparr>render_r := fst (color_cycle (render_r app, m_Increment app)),
                       m_Increment := snd (color_cycle (render_r app, m_Increment app))\<rparr>) a i"

text \<open>The locations at which a list of calls sets a uniform, one for each \<open>glUniform4f\<close>, in order.\<close>

definition uniform_locations :: "gl_call list \<Rightarrow> GLint list" where
  "uniform_locations cs =
     concat (map (\<lambda>c. case c of GlUniform4f l r g b a \<Rightarrow> [l] | _ \<Rightarrow> []) cs)"

subsection \<open>Drivers and states for concrete runs\<close>

text \<open>
  Three drivers whose error check never fires and whose handles count the calls made:
  one compiles every shader and knows the uniform at location 3, one fails every
  compilation with the log \<open>error\<close> (six characters with its terminator), one compiles
  every shader but does not know the uniform.
\<close>

definition driver_accepting :: driver where
  "driver_accepting =
     \<lparr>uint_result = (\<lambda>h. of_nat (length h)),
      int_result = (\<lambda>h. case last h of GlGetUniformLocation p s \<Rightarrow> 3 | _ \<Rightarrow> 1),
      log_result = (\<lambda>h. []),
      call_ok = (\<lambda>h. True)\<rparr>"


definition driver_without_uniform :: driver where
  "driver_without_uniform =
     \<lparr>uint_result = (\<lambda>h. of_nat (length h)),
      int_result = (\<lambda>h. case last h of GlGetUniformLocation p s \<Rightarrow> - 1 | _ \<Rightarrow> 1),
      log_result = (\<lambda>h. []),
      call_ok = (\<lambda>h. True)\<rparr>"

text \<open>
  The world before any call, a file system that holds the scenario as the shader file, and
  an application object whose vertex array (and index buffer) have been set.
\<close>

definition world_start :: world where
  "world_start = \<lparr>calls = [], cout = []\<rparr>"

definition fs_scenario :: "string \<rightharpoonup> string" where
  "fs_scenario = [''res/shaders/Basic.shader'' \<mapsto> text_scenario]"

definition app_start :: Application where
  "app_start = Application_new\<lparr>va := Some VertexArray\<rparr>"

definition app_ready :: Application where
  "app_ready = Application_new\<lparr>va := Some VertexArray, ib := Some quad_ib\<rparr>"

subsection \<open>The colour cycle on integers\<close>

text \<open>
  Every float is an integer multiple of \<open>2\<^sup>-\<^sup>1\<^sup>4\<^sup>9\<close>.  The functions below repeat \<open>f32\<close> and
  \<open>color_cycle\<close> on these integers; they are proved equal to the originals further down
  and serve to run the cycle.  \<open>round_even_quot N M\<close> rounds the quotient \<open>N / M\<close>,
  \<open>f32_quot a b\<close> is the float nearest to \<open>a / b\<close> and \<open>round24 k\<close> the float nearest to \<open>k\<close>,
  all in units of \<open>2\<^sup>-\<^sup>1\<^sup>4\<^sup>9\<close>.
\<close>

definition round_even_quot :: "int \<Rightarrow> int \<Rightarrow> int" where
  "round_even_quot N M =
     (let n = N div M; r = N mod M
      in if 2 * r < M then n else if M < 2 * r then n + 1 else if even n then n else n + 1)"

definition f32_quot :: "int \<Rightarrow> int \<Rightarrow> int" where
  "f32_quot a b =
     (let N = a * 2 ^ 149;
          q = 2 ^ nat (bitlen (\<bar>N\<bar> div b) - 24)
      in round_even_quot N (b * q) * q)"

definition units :: "int \<Rightarrow> float32" where
  "units k = of_int k / 2 ^ 149"

definition round24 :: "int \<Rightarrow> int" where
  "round24 k = (let q = 2 ^ nat (bitlen \<bar>k\<bar> - 24) in round_even_quot k q * q)"

definition cc_int :: "int \<times> int \<Rightarrow> int \<times> int" where
  "cc_int s =
     (let inc1 = (if 2 ^ 149 < fst s then - (5368709 * 2 ^ 120) else snd s);
          inc2 = (if fst s < 0 then 5368709 * 2 ^ 120 else inc1)
      in (round24 (fst s + inc2), inc2))"

text \<open>\<open>k\<close> steps of the cycle on integers, as long as each step satisfies \<open>P\<close>.\<close>

fun checked_run ::
  "(int \<times> int \<Rightarrow> int \<times> int \<Rightarrow> bool) \<Rightarrow> nat \<Rightarrow> int \<times> int \<Rightarrow> (int \<times> int) option" where
  "checked_run P 0 s = Some s"
| "checked_run P (Suc k) s =
     (let s' = cc_int s in if P s s' then checked_run P k s' else None)"

text \<open>
  The values of \<open>r\<close> and \<open>m_Increment\<close> after \<open>n\<close> frames of a new application object, on
  integers and as floats.
\<close>

definition state_after :: "nat \<Rightarrow> int \<times> int" where
  "state_after n = (cc_int ^^ n) (0, 13421773 * 2 ^ 121)"

definition color_after :: "nat \<Rightarrow> float32 \<times> float32" where
  "color_after n = (color_cycle ^^ n) (render_r Application_new, m_Increment Application_new)"

section \<open>Properties of the splitter\<close>

subsection \<open>The loop reads the lines of the text\<close>

lemma text_lines_getline:
  "s \<noteq> [] \<Longrightarrow> text_lines s = takeWhile (\<lambda>x. x \<noteq> newline) s # text_lines (drop 1 (dropWhile (\<lambda>x. x \<noteq> newline) s))"
proof (induction s)
  case Nil
  then show ?case by simp
next
  case (Cons c cs)
  show ?case
  proof (cases "c = newline")
    case True
    then show ?thesis by simp
  next
    case False
    show ?thesis
    proof (cases cs)
      case Nil
      with False show ?thesis by simp
    next
      case (Cons d ds)
      with False Cons.IH show ?thesis by simp
    qed
  qed
qed

lemma getline_text_lines: "getline s = Some (l, s') \<Longrightarrow> text_lines s = l # text_lines s'"
  using text_lines_getline [of s] by (cases s) auto

lemma getline_None: "getline s = None \<Longrightarrow> text_lines s = []"
  by (cases s) auto

lemma getline_line:
  "newline \<notin> set line \<Longrightarrow> getline (line @ newline # rest) = Some (line, rest)"
proof -
  assume n: "newline \<notin> set line"
  then have t: "takeWhile (\<lambda>x. x \<noteq> newline) (line @ newline # rest) = line"
    by (subst takeWhile_append2) auto
  from n have d: "dropWhile (\<lambda>x. x \<noteq> newline) (line @ newline # rest) = newline # rest"
    by (subst dropWhile_append2) auto
  show ?thesis
  proof (cases "line @ newline # rest")
    case Nil
    then show ?thesis by simp
  next
    case (Cons c cs)
    have "getline (c # cs) = Some (takeWhile (\<lambda>x. x \<noteq> newline) (c # cs),
                                   drop 1 (dropWhile (\<lambda>x. x \<noteq> newline) (c # cs)))"
      by simp
    then show ?thesis
      unfolding Cons [symmetric] t d by simp
  qed
qed

lemma ParseShader_loop_lines:
  "ParseShader_loop cast s type ss =
     (case ParseShader_lines cast (text_lines s) type ss of Inl e \<Rightarrow> Inl e | Inr (t, ss') \<Rightarrow> Inr ss')"
proof (induction cast s type ss rule: ParseShader_loop.induct)
  case (1 cast stream type ss)
  show ?case
  proof (cases "getline stream")
    case None
    have "ParseShader_loop cast stream type ss = Inr ss"
      by (subst ParseShader_loop.simps) (simp add: None)
    with None show ?thesis
      by (simp add: getline_None)
  next
    case (Some p)
    obtain line stream' where p: "p = (line, stream')" by (cases p)
    with Some have g: "getline stream = Some (line, stream')" by simp
    have tl: "text_lines stream = line # text_lines stream'"
      by (rule getline_text_lines [OF g])
    show ?thesis
    proof (cases "ParseShader_body cast line type ss")
      case (Inl e)
      have "ParseShader_loop cast stream type ss = Inl e"
        by (subst ParseShader_loop.simps) (simp add: g Inl)
      with Inl show ?thesis
        by (simp add: tl)
    next
      case (Inr q)
      obtain type' ss' where q: "q = (type', ss')" by (cases q)
      have "ParseShader_loop cast stream type ss = ParseShader_loop cast stream' type' ss'"
        by (subst ParseShader_loop.simps) (simp add: g Inr q)
      also have "\<dots> = (case ParseShader_lines cast (text_lines stream') type' ss' of
                          Inl e \<Rightarrow> Inl e | Inr (t, ss'') \<Rightarrow> Inr ss'')"
        by (rule "1.IH" [of "(line, stream')" line stream' q type' ss']) (simp_all add: g Inr q)
      finally show ?thesis
        by (simp add: tl Inr q)
    qed
  qed
qed

lemma ParseShader_loop_line:
  assumes "newline \<notin> set line"
  shows "ParseShader_loop cast (line @ newline # rest) type ss =
           (case ParseShader_body cast line type ss of
              Inl e \<Rightarrow> Inl e
            | Inr (type', ss') \<Rightarrow> ParseShader_loop cast rest type' ss')"
  by (subst ParseShader_loop.simps) (simp add: getline_line [OF assms])

lemma ParseShader_lines_append:
  "ParseShader_lines cast (xs @ ys) type ss =
     (case ParseShader_lines cast xs type ss of
        Inl e \<Rightarrow> Inl e
      | Inr (t, ss') \<Rightarrow> ParseShader_lines cast ys t ss')"
  by (induction xs arbitrary: type ss) (auto split: sum.splits)

lemma ParseShader_stream_lines:
  "ParseShader_stream cast (Some text) =
     (case ParseShader_lines cast (text_lines text) NONE [[], []] of
        Inl e \<Rightarrow> Inl e
      | Inr (t, ss) \<Rightarrow>
          (case ss_str ss (cast VERTEX) of
             Inl e \<Rightarrow> Inl e
           | Inr v \<Rightarrow>
               (case ss_str ss (cast FRAGMENT) of
                  Inl e \<Rightarrow> Inl e
                | Inr f \<Rightarrow> Inr \<lparr>VertexSource = v, FragmentSource = f\<rparr>)))"
  by (simp add: ParseShader_stream_def ParseShader_loop_lines split: sum.splits)

subsection \<open>Streams, markers and sections\<close>

lemma ss_write_2:
  "ss_write [a, b] i t =
     (if i = 0 then Inr [a @ t, b] else if i = 1 then Inr [a, b @ t] else Inl OutOfBounds)"
  by (auto simp: ss_write_def nat_eq_iff)

lemma ss_str_2:
  "ss_str [a, b] i = (if i = 0 then Inr a else if i = 1 then Inr b else Inl OutOfBounds)"
  by (auto simp: ss_str_def)

lemma ss_write_slot:
  "length ss = 2 \<Longrightarrow> i \<in> {0, 1} \<Longrightarrow>
     \<exists>ss'. ss_write ss i t = Inr ss' \<and> length ss' = 2 \<and> ss' ! nat i = ss ! nat i @ t \<and>
           (\<forall>j \<in> {0, 1}. j \<noteq> i \<longrightarrow> ss' ! nat j = ss ! nat j)"
  by (auto simp: ss_write_def)

lemma ss_str_slot: "length ss = 2 \<Longrightarrow> i \<in> {0, 1} \<Longrightarrow> ss_str ss i = Inr (ss ! nat i)"
  by (auto simp: ss_str_def)

lemma body_marker:
  "marker_line l \<Longrightarrow> ParseShader_body cast l type ss = Inr (marker_type (Some l), ss)"
  unfolding marker_line_def by (auto simp: ParseShader_body_def marker_type_def)

lemma body_content:
  "string_find l ''#shader'' = None \<Longrightarrow>
     ParseShader_body cast l type ss =
       (case ss_write ss (cast type) (l @ [newline]) of Inl e \<Rightarrow> Inl e | Inr ss' \<Rightarrow> Inr (type, ss'))"
  by (simp add: ParseShader_body_def)

lemma last_marker_snoc:
  "last_marker (ls @ [l]) = (if marker_line l then Some l else last_marker ls)"
  by (simp add: last_marker_def)

lemma last_marker_None: "last_marker ls = None \<longleftrightarrow> (\<forall>l \<in> set ls. \<not> marker_line l)"
  by (auto simp: last_marker_def find_None_iff)

lemma last_marker_Some: "last_marker ls = Some m \<Longrightarrow> marker_line m"
  by (auto simp: last_marker_def find_Some_iff)

lemma content_after_marker_snoc:
  "content_after_marker (ls @ [l]) \<Longrightarrow> content_after_marker ls \<and> (marker_line l \<or> last_marker ls \<noteq> None)"
  by (cases ls) (auto simp: content_after_marker_def last_marker_None)

lemma section_text_snoc:
  "section_text m (ls @ [l]) =
     section_text m ls @ (if \<not> marker_line l \<and> last_marker ls = Some m then l @ [newline] else [])"
proof -
  let ?P = "\<lambda>xs i. \<not> marker_line (xs ! i) \<and> last_marker (take i xs) = Some m"
  let ?f = "\<lambda>xs i. xs ! i @ [newline]"
  have a: "filter (?P (ls @ [l])) [0..<length ls] = filter (?P ls) [0..<length ls]"
    by (rule filter_cong) (auto simp: nth_append)
  have b: "map (?f (ls @ [l])) (filter (?P ls) [0..<length ls])
         = map (?f ls) (filter (?P ls) [0..<length ls])"
    by (rule map_cong) (auto simp: nth_append)
  have c: "concat (map (?f (ls @ [l])) (filter (?P (ls @ [l])) [length ls]))
         = (if \<not> marker_line l \<and> last_marker ls = Some m then l @ [newline] else [])"
    by simp
  have "section_text m (ls @ [l]) =
          concat (map (?f (ls @ [l])) (filter (?P (ls @ [l])) ([0..<length ls] @ [length ls])))"
    unfolding section_text_def by simp
  also have "\<dots> = concat (map (?f (ls @ [l])) (filter (?P (ls @ [l])) [0..<length ls]))
                 @ concat (map (?f (ls @ [l])) (filter (?P (ls @ [l])) [length ls]))"
    by (simp only: filter_append map_append concat_append)
  also have "\<dots> = section_text m ls
                 @ (if \<not> marker_line l \<and> last_marker ls = Some m then l @ [newline] else [])"
    unfolding a b c section_text_def ..
  finally show ?thesis .
qed

lemma ParseShader_lines_sections:
  assumes c: "slots_ok cast"
  shows "well_formed_markers ls \<Longrightarrow> content_after_marker ls \<Longrightarrow>
     \<exists>ss. ParseShader_lines cast ls NONE [[], []] = Inr (marker_type (last_marker ls), ss) \<and>
          length ss = 2 \<and>
          ss ! nat (cast VERTEX) = section_text ''#shader vertex'' ls \<and>
          ss ! nat (cast FRAGMENT) = section_text ''#shader fragment'' ls"
proof (induction ls rule: rev_induct)
  case Nil
  from c show ?case
    by (auto simp: slots_ok_def last_marker_def marker_type_def section_text_def)
next
  case (snoc l ls)
  from snoc.prems have wf: "well_formed_markers ls"
    and wl: "string_find l ''#shader'' \<noteq> None \<Longrightarrow> marker_line l"
    by (auto simp: well_formed_markers_def)
  from content_after_marker_snoc [OF snoc.prems(2)]
  have cam: "content_after_marker ls" and ml: "marker_line l \<or> last_marker ls \<noteq> None"
    by auto
  from snoc.IH [OF wf cam] obtain ss where
    run: "ParseShader_lines cast ls NONE [[], []] = Inr (marker_type (last_marker ls), ss)"
    and len: "length ss = 2"
    and v: "ss ! nat (cast VERTEX) = section_text ''#shader vertex'' ls"
    and f: "ss ! nat (cast FRAGMENT) = section_text ''#shader fragment'' ls"
    by blast
  have step: "ParseShader_lines cast (ls @ [l]) NONE [[], []] =
      (case ParseShader_body cast l (marker_type (last_marker ls)) ss of
         Inl e \<Rightarrow> Inl e | Inr (t, ss') \<Rightarrow> Inr (t, ss'))"
    by (simp add: ParseShader_lines_append run split: sum.splits)
  show ?case
  proof (cases "marker_line l")
    case True
    then show ?thesis
      using len v f
      by (simp add: step body_marker last_marker_snoc section_text_snoc)
  next
    case False
    with wl have nf: "string_find l ''#shader'' = None" by blast
    from False ml obtain m where m: "last_marker ls = Some m" by auto
    from last_marker_Some [OF m] have mm: "m = ''#shader vertex'' \<or> m = ''#shader fragment''"
      by (simp add: marker_line_def)
    let ?t = "marker_type (last_marker ls)"
    from mm m c have slot: "cast ?t \<in> {0, 1}"
      by (auto simp: marker_type_def slots_ok_def)
    from ss_write_slot [OF len slot, of "l @ [newline]"] obtain ss' where
      w: "ss_write ss (cast ?t) (l @ [newline]) = Inr ss'"
      and len': "length ss' = 2"
      and hit: "ss' ! nat (cast ?t) = ss ! nat (cast ?t) @ l @ [newline]"
      and miss: "\<forall>j \<in> {0, 1}. j \<noteq> cast ?t \<longrightarrow> ss' ! nat j = ss ! nat j"
      by blast
    have res: "ParseShader_lines cast (ls @ [l]) NONE [[], []] = Inr (?t, ss')"
      by (simp add: step body_content [OF nf] w)
    from mm show ?thesis
    proof
      assume mv: "m = ''#shader vertex''"
      with m have t: "?t = VERTEX" by (simp add: marker_type_def)
      from c miss t have "ss' ! nat (cast FRAGMENT) = ss ! nat (cast FRAGMENT)"
        by (auto simp: slots_ok_def)
      with hit t v f len' False m mv show ?thesis
        by (simp add: res last_marker_snoc section_text_snoc)
    next
      assume mf: "m = ''#shader fragment''"
      with m have t: "?t = FRAGMENT" by (simp add: marker_type_def)
      from c miss t have "ss' ! nat (cast VERTEX) = ss ! nat (cast VERTEX)"
        by (auto simp: slots_ok_def)
      with hit t v f len' False m mf show ?thesis
        by (simp add: res last_marker_snoc section_text_snoc)
    qed
  qed
qed

text \<open>
  Where the two enumerators index the two streams, the marker lines of the text are
  well-formed and no line of content comes before the first marker line, \<open>ParseShader\<close>
  drops every marker line and returns, for the vertex and for the fragment section, the
  lines whose most recent marker is that section's, in their order, each followed by one
  newline.
\<close>

lemma ParseShader_sections_after_marker:
  assumes "slots_ok cast"
    and "well_formed_markers (text_lines text)"
    and "content_after_marker (text_lines text)"
  shows "splits_into_sections cast text"
proof -
  from ParseShader_lines_sections [OF assms] obtain ss where
    run: "ParseShader_lines cast (text_lines text) NONE [[], []] =
            Inr (marker_type (last_marker (text_lines text)), ss)"
    and len: "length ss = 2"
    and v: "ss ! nat (cast VERTEX) = section_text ''#shader vertex'' (text_lines text)"
    and f: "ss ! nat (cast FRAGMENT) = section_text ''#shader fragment'' (text_lines text)"
    by blast
  from assms(1) have "cast VERTEX \<in> {0, 1}" and "cast FRAGMENT \<in> {0, 1}"
    by (simp_all add: slots_ok_def)
  then show ?thesis
    using v f
    by (simp add: splits_into_sections_def ParseShader_stream_def ParseShader_loop_lines run
          ss_str_slot [OF len])
qed

subsection \<open>No marker line reaches a stream\<close>

lemma text_lines_empty: "text_lines s = [] \<longleftrightarrow> s = []"
  by (cases s) (auto split: list.splits)

lemma text_lines_no_newline: "l \<in> set (text_lines s) \<Longrightarrow> newline \<notin> set l"
proof (induction s arbitrary: l)
  case Nil
  then show ?case by simp
next
  case (Cons c cs)
  show ?case
  proof (cases "c = newline")
    case True
    with Cons show ?thesis by auto
  next
    case False
    show ?thesis
    proof (cases "text_lines cs")
      case Nil
      with False Cons.prems show ?thesis by auto
    next
      case (Cons m ms)
      with False Cons.prems Cons.IH [of m] Cons.IH [of l] show ?thesis by auto
    qed
  qed
qed

lemma text_lines_append:
  "s = [] \<or> last s = newline \<Longrightarrow> text_lines (s @ t) = text_lines s @ text_lines t"
proof (induction s)
  case Nil
  show ?case by simp
next
  case (Cons c cs)
  show ?case
  proof (cases "cs = []")
    case True
    with Cons.prems show ?thesis by simp
  next
    case False
    with Cons.prems have "last cs = newline" by simp
    with Cons.IH have ih: "text_lines (cs @ t) = text_lines cs @ text_lines t" by simp
    from False obtain m ms where m: "text_lines cs = m # ms"
      by (cases "text_lines cs") (simp_all add: text_lines_empty)
    show ?thesis
      by (simp add: ih m)
  qed
qed

lemma text_lines_line: "newline \<notin> set l \<Longrightarrow> text_lines (l @ [newline]) = [l]"
  using getline_text_lines [OF getline_line, of l "[]"] by simp

lemma unmarked_append:
  assumes "unmarked s" and "newline \<notin> set l" and "string_find l ''#shader'' = None"
  shows "unmarked (s @ l @ [newline])"
proof -
  from assms(1) have e: "s = [] \<or> last s = newline"
    by (simp add: unmarked_def)
  from text_lines_append [OF e, of "l @ [newline]"] text_lines_line [OF assms(2)]
  have "text_lines (s @ l @ [newline]) = text_lines s @ [l]" by simp
  with assms show ?thesis
    by (simp add: unmarked_def)
qed

lemma body_unmarked:
  assumes "\<forall>s \<in> set ss. unmarked s" and "newline \<notin> set line"
    and "ParseShader_body cast line type ss = Inr (t, ss')"
  shows "\<forall>s \<in> set ss'. unmarked s"
proof (cases "string_find line ''#shader'' = None")
  case False
  with assms(3) have "ss' = ss"
    by (auto simp: ParseShader_body_def split: if_splits)
  with assms(1) show ?thesis by simp
next
  case True
  with assms(3) have i: "0 \<le> cast type" "cast type < int (length ss)"
    and s: "ss' = ss[nat (cast type) := ss ! nat (cast type) @ line @ [newline]]"
    by (auto simp: ParseShader_body_def ss_write_def split: if_splits)
  from i have "ss ! nat (cast type) \<in> set ss" by simp
  with assms(1) have "unmarked (ss ! nat (cast type))" by blast
  from unmarked_append [OF this assms(2) True]
  have "unmarked (ss ! nat (cast type) @ line @ [newline])" .
  with assms(1) show ?thesis
    unfolding s using set_update_subset_insert [of ss "nat (cast type)"] by blast
qed

lemma lines_unmarked:
  "\<forall>l \<in> set ls. newline \<notin> set l \<Longrightarrow> \<forall>s \<in> set ss. unmarked s \<Longrightarrow>
     ParseShader_lines cast ls type ss = Inr (t, ss') \<Longrightarrow> \<forall>s \<in> set ss'. unmarked s"
proof (induction ls arbitrary: type ss)
  case Nil
  then show ?case by simp
next
  case (Cons l ls)
  from Cons.prems(3) obtain t1 ss1 where
    b: "ParseShader_body cast l type ss = Inr (t1, ss1)"
    and r: "ParseShader_lines cast ls t1 ss1 = Inr (t, ss')"
    by (cases "ParseShader_body cast l type ss") auto
  from Cons.prems(1) have n: "newline \<notin> set l" and ns: "\<forall>l \<in> set ls. newline \<notin> set l"
    by simp_all
  from body_unmarked [OF Cons.prems(2) n b] have "\<forall>s \<in> set ss1. unmarked s" .
  from Cons.IH [OF ns this r] show ?case .
qed

lemma ss_str_member: "ss_str ss i = Inr v \<Longrightarrow> v \<in> set ss"
  by (auto simp: ss_str_def split: if_splits)

lemma ParseShader_stream_unmarked:
  assumes "ParseShader_stream cast (Some text) = Inr src"
  shows "unmarked (VertexSource src) \<and> unmarked (FragmentSource src)"
proof -
  from assms obtain t ss where
    r: "ParseShader_lines cast (text_lines text) NONE [[], []] = Inr (t, ss)"
    and v: "ss_str ss (cast VERTEX) = Inr (VertexSource src)"
    and f: "ss_str ss (cast FRAGMENT) = Inr (FragmentSource src)"
    unfolding ParseShader_stream_lines by (auto split: sum.splits)
  have "\<forall>l \<in> set (text_lines text). newline \<notin> set l"
    by (blast dest: text_lines_no_newline)
  moreover have "\<forall>s \<in> set [[], []]. unmarked s"
    by (simp add: unmarked_def)
  ultimately have "\<forall>s \<in> set ss. unmarked s"
    using r by (rule lines_unmarked)
  with ss_str_member [OF v] ss_str_member [OF f] show ?thesis by blast
qed

subsection \<open>Runs on the concrete inputs\<close>

lemma lines_scenario: "text_lines text_scenario = [''#shader vertex'', ''A'', ''#shader fragment'', ''B'']"
  by (simp add: text_scenario_def newline_def)

lemma lines_stray: "text_lines text_stray = [''X'', ''#shader vertex'', ''A'']"
  by (simp add: text_stray_def newline_def)

lemma lines_stray_both:
  "text_lines text_stray_both = [''stray'', ''#shader vertex'', ''A'', ''#shader fragment'', ''B'']"
  by (simp add: text_stray_both_def text_scenario_def newline_def)

lemma lines_no_marker: "text_lines text_no_marker = [''void main() {}'']"
  by (simp add: text_no_marker_def newline_def)

lemmas run_simps = ParseShader_stream_lines ParseShader_body_def ss_write_2 ss_str_2

lemma slots_ok_default: "slots_ok cast_default"
  by (simp add: slots_ok_def cast_default_def)

lemma scenario_slots:
  assumes "ParseShader_stream cast (Some text_scenario) =
             Inr \<lparr>VertexSource = ''A'' @ [newline], FragmentSource = ''B'' @ [newline]\<rparr>"
  shows "slots_ok cast"
  using assms
  by (simp add: run_simps lines_scenario slots_ok_def split: if_splits)

subsection \<open>Claims about the splitter\<close>

text \<open>
  Claim C1 does not hold of the code.  The text \<open>X\n #shader vertex\n A\n\<close> has one marker
  line, which is well-formed, and a line of content before it; the lines that follow the
  vertex marker are \<open>A\<close>, and no line follows a fragment marker.  With the enumerators
  numbered \<open>-1, 0, 1\<close> the scenario of the claim splits into \<open>A\n\<close> and \<open>B\n\<close>, but on this text
  the line \<open>X\<close> is written through \<open>ss[(int)NONE]\<close>, outside the array \<open>ss\<close>; and under no
  declaration of the enumerators does \<open>ParseShader\<close> split the scenario and also return
  \<open>A\n\<close> and the empty string for this text.
\<close>

theorem ParseShader_sections_stray:
  "text_lines text_stray = [''X'', ''#shader vertex'', ''A''] \<and>
   ParseShader_stream cast_default (Some text_scenario) =
     Inr \<lparr>VertexSource = ''A'' @ [newline], FragmentSource = ''B'' @ [newline]\<rparr> \<and>
   ParseShader_stream cast_default (Some text_stray) = Inl OutOfBounds \<and>
   \<not> (\<exists>cast.
        ParseShader_stream cast (Some text_scenario) =
          Inr \<lparr>VertexSource = ''A'' @ [newline], FragmentSource = ''B'' @ [newline]\<rparr> \<and>
        ParseShader_stream cast (Some text_stray) =
          Inr \<lparr>VertexSource = ''A'' @ [newline], FragmentSource = []\<rparr>)"
proof (intro conjI)
  show "text_lines text_stray = [''X'', ''#shader vertex'', ''A'']"
    by (rule lines_stray)
  show "ParseShader_stream cast_default (Some text_scenario) =
     Inr \<lparr>VertexSource = ''A'' @ [newline], FragmentSource = ''B'' @ [newline]\<rparr>"
    by (simp add: run_simps lines_scenario cast_default_def)
  show "ParseShader_stream cast_default (Some text_stray) = Inl OutOfBounds"
    by (simp add: run_simps lines_stray cast_default_def)
  show "\<not> (\<exists>cast.
        ParseShader_stream cast (Some text_scenario) =
          Inr \<lparr>VertexSource = ''A'' @ [newline], FragmentSource = ''B'' @ [newline]\<rparr> \<and>
        ParseShader_stream cast (Some text_stray) =
          Inr \<lparr>VertexSource = ''A'' @ [newline], FragmentSource = []\<rparr>)"
  proof
    assume "\<exists>cast.
        ParseShader_stream cast (Some text_scenario) =
          Inr \<lparr>VertexSource = ''A'' @ [newline], FragmentSource = ''B'' @ [newline]\<rparr> \<and>
        ParseShader_stream cast (Some text_stray) =
          Inr \<lparr>VertexSource = ''A'' @ [newline], FragmentSource = []\<rparr>"
    then obtain cast where
      sc: "ParseShader_stream cast (Some text_scenario) =
             Inr \<lparr>VertexSource = ''A'' @ [newline], FragmentSource = ''B'' @ [newline]\<rparr>"
      and st: "ParseShader_stream cast (Some text_stray) =
             Inr \<lparr>VertexSource = ''A'' @ [newline], FragmentSource = []\<rparr>"
      by blast
    from scenario_slots [OF sc]
    have "cast VERTEX = 0 \<and> cast FRAGMENT = 1 \<or> cast VERTEX = 1 \<and> cast FRAGMENT = 0"
      by (auto simp: slots_ok_def)
    with st show False
      by (auto simp: run_simps lines_stray split: if_splits)
  qed
qed

text \<open>
  Claim C2, as amended.  When the file cannot be opened, \<open>ParseShader\<close> reports nothing: it
  returns a \<open>ShaderProgramSource\<close> whose two strings are empty, as it does for an empty
  file.
\<close>

theorem ParseShader_unreadable:
  assumes "fs filepath = None" and "slots_ok cast"
  shows "ParseShader cast fs filepath = Inr \<lparr>VertexSource = [], FragmentSource = []\<rparr> \<and>
         ParseShader cast (fs(filepath \<mapsto> [])) filepath = ParseShader cast fs filepath"
proof -
  from assms(2) have "cast VERTEX = 0 \<or> cast VERTEX = 1" and "cast FRAGMENT = 0 \<or> cast FRAGMENT = 1"
    by (auto simp: slots_ok_def)
  then have "ParseShader_stream cast None = Inr \<lparr>VertexSource = [], FragmentSource = []\<rparr>"
    by (auto simp: ParseShader_stream_def ss_str_2)
  moreover have "ParseShader_loop cast [] NONE [[], []] = Inr [[], []]"
    by (subst ParseShader_loop.simps) simp
  then have "ParseShader_stream cast (Some []) = ParseShader_stream cast None"
    by (simp add: ParseShader_stream_def)
  ultimately show ?thesis
    using assms(1) by (simp add: ParseShader_def)
qed

text \<open>The theorem at a file system that has the shader file, asked for another path.\<close>

theorem ParseShader_unreadable_witness:
  "[''res/shaders/Basic.shader'' \<mapsto> text_scenario] ''res/shaders/Missing.shader'' = None \<and>
   slots_ok cast_default \<and>
   ParseShader cast_default [''res/shaders/Basic.shader'' \<mapsto> text_scenario]
     ''res/shaders/Missing.shader'' = Inr \<lparr>VertexSource = [], FragmentSource = []\<rparr>"
proof -
  have a: "[''res/shaders/Basic.shader'' \<mapsto> text_scenario] ''res/shaders/Missing.shader'' = None"
    by simp
  from ParseShader_unreadable
         [where fs = "[''res/shaders/Basic.shader'' \<mapsto> text_scenario]"
            and filepath = "''res/shaders/Missing.shader''" and cast = cast_default,
          OF a slots_ok_default]
       a slots_ok_default
  show ?thesis by blast
qed

text \<open>
  Claim C2 as stated fails: with no file at all, \<open>ParseShader\<close> returns an ordinary result
  with two empty strings.
\<close>

theorem ParseShader_unreadable_counterexample:
  "ParseShader cast_default Map.empty ''res/shaders/Basic.shader'' =
     Inr \<lparr>VertexSource = [], FragmentSource = []\<rparr>"
  by (simp add: ParseShader_def ParseShader_stream_def ss_str_2 cast_default_def)

text \<open>
  Claim C3 does not hold of the code.  With the enumerators numbered \<open>-1, 0, 1\<close> the text
  \<open>stray\n #shader vertex\n A\n #shader fragment\n B\n\<close> makes \<open>ParseShader\<close> write outside the
  array \<open>ss\<close>; and under no declaration of the enumerators does \<open>ParseShader\<close> split the
  scenario and also return from this text with \<open>stray\<close> in neither string.
\<close>

theorem ParseShader_stray_content:
  "ParseShader_stream cast_default (Some text_stray_both) = Inl OutOfBounds \<and>
   \<not> (\<exists>cast src.
        ParseShader_stream cast (Some text_scenario) =
          Inr \<lparr>VertexSource = ''A'' @ [newline], FragmentSource = ''B'' @ [newline]\<rparr> \<and>
        ParseShader_stream cast (Some text_stray_both) = Inr src \<and>
        string_find (VertexSource src) ''stray'' = None \<and>
        string_find (FragmentSource src) ''stray'' = None)"
proof
  show "ParseShader_stream cast_default (Some text_stray_both) = Inl OutOfBounds"
    by (simp add: run_simps lines_stray_both cast_default_def)
  show "\<not> (\<exists>cast src.
        ParseShader_stream cast (Some text_scenario) =
          Inr \<lparr>VertexSource = ''A'' @ [newline], FragmentSource = ''B'' @ [newline]\<rparr> \<and>
        ParseShader_stream cast (Some text_stray_both) = Inr src \<and>
        string_find (VertexSource src) ''stray'' = None \<and>
        string_find (FragmentSource src) ''stray'' = None)"
  proof
    assume "\<exists>cast src.
        ParseShader_stream cast (Some text_scenario) =
          Inr \<lparr>VertexSource = ''A'' @ [newline], FragmentSource = ''B'' @ [newline]\<rparr> \<and>
        ParseShader_stream cast (Some text_stray_both) = Inr src \<and>
        string_find (VertexSource src) ''stray'' = None \<and>
        string_find (FragmentSource src) ''stray'' = None"
    then obtain cast src where
      sc: "ParseShader_stream cast (Some text_scenario) =
             Inr \<lparr>VertexSource = ''A'' @ [newline], FragmentSource = ''B'' @ [newline]\<rparr>"
      and st: "ParseShader_stream cast (Some text_stray_both) = Inr src"
      and v: "string_find (VertexSource src) ''stray'' = None"
      and f: "string_find (FragmentSource src) ''stray'' = None"
      by blast
    from scenario_slots [OF sc]
    have "cast VERTEX = 0 \<and> cast FRAGMENT = 1 \<or> cast VERTEX = 1 \<and> cast FRAGMENT = 0"
      by (auto simp: slots_ok_def)
    with st v f show False
      by (auto simp: run_simps lines_stray_both split: if_splits)
  qed
qed

text \<open>
  Claim C4 does not hold of the code.  With the enumerators numbered \<open>-1, 0, 1\<close> the text
  \<open>void main() {}\n\<close>, which has no marker line, makes \<open>ParseShader\<close> write outside the
  array \<open>ss\<close>; and under no declaration of the enumerators does \<open>ParseShader\<close> split the
  scenario and also return two empty strings for this text.
\<close>

theorem ParseShader_no_markers:
  "ParseShader_stream cast_default (Some text_no_marker) = Inl OutOfBounds \<and>
   \<not> (\<exists>cast.
        ParseShader_stream cast (Some text_scenario) =
          Inr \<lparr>VertexSource = ''A'' @ [newline], FragmentSource = ''B'' @ [newline]\<rparr> \<and>
        ParseShader_stream cast (Some text_no_marker) =
          Inr \<lparr>VertexSource = [], FragmentSource = []\<rparr>)"
proof
  show "ParseShader_stream cast_default (Some text_no_marker) = Inl OutOfBounds"
    by (simp add: run_simps lines_no_marker cast_default_def)
  show "\<not> (\<exists>cast.
        ParseShader_stream cast (Some text_scenario) =
          Inr \<lparr>VertexSource = ''A'' @ [newline], FragmentSource = ''B'' @ [newline]\<rparr> \<and>
        ParseShader_stream cast (Some text_no_marker) =
          Inr \<lparr>VertexSource = [], FragmentSource = []\<rparr>)"
  proof
    assume "\<exists>cast.
        ParseShader_stream cast (Some text_scenario) =
          Inr \<lparr>VertexSource = ''A'' @ [newline], FragmentSource = ''B'' @ [newline]\<rparr> \<and>
        ParseShader_stream cast (Some text_no_marker) =
          Inr \<lparr>VertexSource = [], FragmentSource = []\<rparr>"
    then obtain cast where
      sc: "ParseShader_stream cast (Some text_scenario) =
             Inr \<lparr>VertexSource = ''A'' @ [newline], FragmentSource = ''B'' @ [newline]\<rparr>"
      and st: "ParseShader_stream cast (Some text_no_marker) =
             Inr \<lparr>VertexSource = [], FragmentSource = []\<rparr>"
      by blast
    from scenario_slots [OF sc]
    have "cast VERTEX = 0 \<and> cast FRAGMENT = 1 \<or> cast VERTEX = 1 \<and> cast FRAGMENT = 0"
      by (auto simp: slots_ok_def)
    with st show False
      by (auto simp: run_simps lines_no_marker split: if_splits)
  qed
qed

text \<open>
  Claim C9, as amended.  A line that contains \<open>#shader\<close> and has neither \<open>vertex\<close> nor
  \<open>fragment\<close> anywhere in it changes nothing: the loop body leaves \<open>type\<close> and the streams as
  they are, and the loop goes on as if the line were not there.  Every line that contains
  \<open>#shader\<close> is copied to no stream and sets \<open>type\<close> by the two tests alone: \<open>VERTEX\<close> when
  \<open>vertex\<close> occurs in the line, else \<open>FRAGMENT\<close> when \<open>fragment\<close> occurs in it, else
  \<open>type\<close> as it was.  Every other line leaves \<open>type\<close> as it is and goes, with its newline, to
  the stream that \<open>type\<close> indexes.
\<close>

theorem ParseShader_unrecognised_keyword:
  assumes "string_find line ''#shader'' \<noteq> None"
    and "string_find line ''vertex'' = None"
    and "string_find line ''fragment'' = None"
    and "newline \<notin> set line"
  shows "ParseShader_body cast line type ss = Inr (type, ss) \<and>
         ParseShader_loop cast (line @ newline # rest) type ss = ParseShader_loop cast rest type ss \<and>
         (\<forall>l t s. string_find l ''#shader'' \<noteq> None \<longrightarrow>
            ParseShader_body cast l t s =
              Inr (if string_find l ''vertex'' \<noteq> None then VERTEX
                   else if string_find l ''fragment'' \<noteq> None then FRAGMENT
                   else t, s)) \<and>
         (\<forall>l t s. string_find l ''#shader'' = None \<longrightarrow>
            ParseShader_body cast l t s =
              (if 0 \<le> cast t \<and> cast t < int (length s)
               then Inr (t, s[nat (cast t) := s ! nat (cast t) @ l @ [newline]])
               else Inl OutOfBounds))"
proof -
  from assms(1-3) have b: "ParseShader_body cast line type ss = Inr (type, ss)"
    by (simp add: ParseShader_body_def)
  have l: "ParseShader_loop cast (line @ newline # rest) type ss = ParseShader_loop cast rest type ss"
    by (simp add: ParseShader_loop_line [OF assms(4)] b)
  have m: "\<forall>l t s. string_find l ''#shader'' \<noteq> None \<longrightarrow>
            ParseShader_body cast l t s =
              Inr (if string_find l ''vertex'' \<noteq> None then VERTEX
                   else if string_find l ''fragment'' \<noteq> None then FRAGMENT
                   else t, s)"
    by (simp add: ParseShader_body_def)
  have c: "\<forall>l t s. string_find l ''#shader'' = None \<longrightarrow>
            ParseShader_body cast l t s =
              (if 0 \<le> cast t \<and> cast t < int (length s)
               then Inr (t, s[nat (cast t) := s ! nat (cast t) @ l @ [newline]])
               else Inl OutOfBounds)"
    by (simp add: ParseShader_body_def ss_write_def)
  from b l m c show ?thesis by blast
qed

text \<open>
  The theorem at the line \<open>#shader geometry\<close>, read while the fragment section is active,
  at the marker line \<open>#shader fragment\<close> and at a line of content; in the text
  \<open>#shader fragment\n B\n #shader geometry\n C\n\<close> the line \<open>C\<close> lands in the fragment string.
\<close>

theorem ParseShader_unrecognised_keyword_witness:
  "string_find ''#shader geometry'' ''#shader'' \<noteq> None \<and>
   string_find ''#shader geometry'' ''vertex'' = None \<and>
   string_find ''#shader geometry'' ''fragment'' = None \<and>
   newline \<notin> set ''#shader geometry'' \<and>
   ParseShader_body cast_default ''#shader geometry'' FRAGMENT [''A'', ''B''] = Inr (FRAGMENT, [''A'', ''B'']) \<and>
   ParseShader_loop cast_default (''#shader geometry'' @ newline # ''C'') FRAGMENT [''A'', ''B''] =
     ParseShader_loop cast_default ''C'' FRAGMENT [''A'', ''B''] \<and>
   ParseShader_body cast_default ''#shader fragment'' VERTEX [''A'', ''B''] = Inr (FRAGMENT, [''A'', ''B'']) \<and>
   ParseShader_body cast_default ''C'' FRAGMENT [''A'', ''B''] = Inr (FRAGMENT, [''A'', ''B'' @ ''C'' @ [newline]]) \<and>
   ParseShader_stream cast_default (Some text_geometry) =
     Inr \<lparr>VertexSource = [], FragmentSource = ''B'' @ newline # ''C'' @ [newline]\<rparr>"
proof -
  have a: "string_find ''#shader geometry'' ''#shader'' \<noteq> None" by simp
  have b: "string_find ''#shader geometry'' ''vertex'' = None" by simp
  have c: "string_find ''#shader geometry'' ''fragment'' = None" by simp
  have d: "newline \<notin> set ''#shader geometry''" by (simp add: newline_def)
  have e: "string_find ''#shader fragment'' ''#shader'' \<noteq> None" by simp
  have f: "string_find ''C'' ''#shader'' = None" by simp
  have g: "ParseShader_stream cast_default (Some text_geometry) =
     Inr \<lparr>VertexSource = [], FragmentSource = ''B'' @ newline # ''C'' @ [newline]\<rparr>"
    by (simp add: run_simps text_geometry_def newline_def cast_default_def)
  note t = ParseShader_unrecognised_keyword [OF a b c d, of cast_default FRAGMENT "[''A'', ''B'']" "''C''"]
  from t have "ParseShader_body cast_default ''#shader fragment'' VERTEX [''A'', ''B''] = Inr (FRAGMENT, [''A'', ''B''])"
    using e by simp
  moreover from t have "ParseShader_body cast_default ''C'' FRAGMENT [''A'', ''B''] =
      Inr (FRAGMENT, [''A'', ''B'' @ ''C'' @ [newline]])"
    using f by (simp add: cast_default_def)
  ultimately show ?thesis
    using t a b c d g by blast
qed

text \<open>
  Claim C9 as stated fails.  The keyword of the marker line \<open>#shader vertexes\<close> is neither
  \<open>vertex\<close> nor \<open>fragment\<close>, yet the line, read while the fragment section is active, makes
  the vertex section active, because \<open>vertex\<close> occurs in it: in the text
  \<open>#shader fragment\n B\n #shader vertexes\n C\n\<close> the line \<open>C\<close> lands in the vertex string.
\<close>

theorem ParseShader_unrecognised_keyword_counterexample:
  "string_find ''#shader vertexes'' ''#shader'' \<noteq> None \<and>
   ParseShader_body cast_default ''#shader vertexes'' FRAGMENT [''A'', ''B''] = Inr (VERTEX, [''A'', ''B'']) \<and>
   ParseShader_stream cast_default (Some text_vertexes) =
     Inr \<lparr>VertexSource = ''C'' @ [newline], FragmentSource = ''B'' @ [newline]\<rparr>"
  by (simp add: run_simps ParseShader_body_def text_vertexes_def newline_def cast_default_def)

text \<open>
  Claim C10.  A line that contains \<open>#shader\<close> anywhere is a marker line whatever else it
  contains: it is copied to no stream, the loop goes on with the rest of the text, and
  when the line contains \<open>vertex\<close> the vertex section becomes active, also when the line
  contains \<open>fragment\<close> too.  So no line of the two strings that \<open>ParseShader\<close> returns
  contains \<open>#shader\<close>, whatever the text.
\<close>

theorem ParseShader_marker_substring:
  assumes "string_find line ''#shader'' \<noteq> None" and "newline \<notin> set line"
  shows "(\<exists>t. ParseShader_body cast line type ss = Inr (t, ss) \<and>
              ParseShader_loop cast (line @ newline # rest) type ss = ParseShader_loop cast rest t ss \<and>
              (string_find line ''vertex'' \<noteq> None \<longrightarrow> t = VERTEX)) \<and>
         (\<forall>text src. ParseShader_stream cast (Some text) = Inr src \<longrightarrow>
            (\<forall>l \<in> set (text_lines (VertexSource src)) \<union> set (text_lines (FragmentSource src)).
               string_find l ''#shader'' = None))"
proof -
  define t where "t = (if string_find line ''vertex'' \<noteq> None then VERTEX
                        else if string_find line ''fragment'' \<noteq> None then FRAGMENT else type)"
  from assms(1) have b: "ParseShader_body cast line type ss = Inr (t, ss)"
    by (simp add: ParseShader_body_def t_def)
  have v: "string_find line ''vertex'' \<noteq> None \<longrightarrow> t = VERTEX"
    by (simp add: t_def)
  have l: "ParseShader_loop cast (line @ newline # rest) type ss = ParseShader_loop cast rest t ss"
    by (simp add: ParseShader_loop_line [OF assms(2)] b)
  have "\<forall>l \<in> set (text_lines (VertexSource src)) \<union> set (text_lines (FragmentSource src)).
          string_find l ''#shader'' = None"
    if "ParseShader_stream cast (Some input) = Inr src" for input src
    using ParseShader_stream_unmarked [OF that] by (auto simp: unmarked_def)
  with b l v show ?thesis by blast
qed

text \<open>
  The theorem at a line of shader code with a comment, read while the fragment section
  is active: the line contains \<open>#shader\<close>, \<open>vertex\<close> and \<open>fragment\<close>, and switches to the
  vertex section, so that in a text the line after it lands in the vertex string.
\<close>

theorem ParseShader_marker_substring_witness:
  "string_find ''color = vertexColor; // #shader fragment'' ''#shader'' \<noteq> None \<and>
   newline \<notin> set ''color = vertexColor; // #shader fragment'' \<and>
   string_find ''color = vertexColor; // #shader fragment'' ''vertex'' \<noteq> None \<and>
   string_find ''color = vertexColor; // #shader fragment'' ''fragment'' \<noteq> None \<and>
   ParseShader_body cast_default ''color = vertexColor; // #shader fragment'' FRAGMENT [''A'', ''B'']
     = Inr (VERTEX, [''A'', ''B'']) \<and>
   ParseShader_loop cast_default (''color = vertexColor; // #shader fragment'' @ newline # ''C'')
       FRAGMENT [''A'', ''B'']
     = ParseShader_loop cast_default ''C'' VERTEX [''A'', ''B''] \<and>
   ParseShader_stream cast_default
       (Some (''#shader fragment'' @ newline # ''color = vertexColor; // #shader fragment''
              @ newline # ''C'' @ [newline]))
     = Inr \<lparr>VertexSource = ''C'' @ [newline], FragmentSource = []\<rparr>"
proof -
  have a: "string_find ''color = vertexColor; // #shader fragment'' ''#shader'' \<noteq> None" by simp
  have b: "newline \<notin> set ''color = vertexColor; // #shader fragment''" by (simp add: newline_def)
  have c: "string_find ''color = vertexColor; // #shader fragment'' ''vertex'' \<noteq> None" by simp
  have d: "string_find ''color = vertexColor; // #shader fragment'' ''fragment'' \<noteq> None" by simp
  have e: "ParseShader_stream cast_default
       (Some (''#shader fragment'' @ newline # ''color = vertexColor; // #shader fragment''
              @ newline # ''C'' @ [newline]))
     = Inr \<lparr>VertexSource = ''C'' @ [newline], FragmentSource = []\<rparr>"
    by (simp add: run_simps newline_def cast_default_def)
  from ParseShader_marker_substring [OF a b, of cast_default FRAGMENT "[''A'', ''B'']" "''C''"] a b c d e
  show ?thesis by auto
qed

section \<open>Properties of the program builder\<close>

subsection \<open>Steps and calls\<close>

lemma and_then_Inr [simp]: "and_then (Inr x) f = f x"
  by (simp add: and_then_def)

lemma and_then_Inl [simp]: "and_then (Inl e) f = Inl e"
  by (simp add: and_then_def)

lemma CALL_eq:
  "CALL drv c w = (if call_ok drv (calls w @ [c]) then Inr (gl c w) else Inl AssertionFailed)"
  by (simp add: CALL_def ASSERT_def gl_def Let_def)

lemma CALL_ok: "\<forall>h. call_ok drv h \<Longrightarrow> CALL drv c w = Inr (gl c w)"
  by (simp add: CALL_eq)

lemma calls_gl [simp]: "calls (gl c w) = calls w @ [c]"
  by (simp add: gl_def)

lemma cout_gl [simp]: "cout (gl c w) = cout w"
  by (simp add: gl_def)

lemma calls_print [simp]: "calls (print t w) = calls w"
  by (simp add: print_def)

lemma cout_print [simp]: "cout (print t w) = cout w @ t"
  by (simp add: print_def)

subsection \<open>\<open>CompileShader\<close> and \<open>CreateShader\<close>\<close>

lemma CompileShader_failed:
  assumes ok: "\<forall>h. call_ok drv h" and failed: "compile_failed drv type source (calls w)"
  shows "CompileShader drv type source w =
           Inr (0, \<lparr>calls = calls w @ compile_calls drv type source (calls w)
                                   @ failure_calls drv type source (calls w),
                     cout = cout w @ failure_report drv type source (calls w)\<rparr>)"
  using failed
  by (simp add: CompileShader_def CALL_ok [OF ok] Let_def compile_failed_def compile_calls_def
        failure_calls_def failure_report_def)

lemma CompileShader_compiled:
  assumes ok: "\<forall>h. call_ok drv h" and compiled: "\<not> compile_failed drv type source (calls w)"
  shows "CompileShader drv type source w =
           Inr (uint_result drv (calls w @ [GlCreateShader type]),
                \<lparr>calls = calls w @ compile_calls drv type source (calls w), cout = cout w\<rparr>)"
  using compiled
  by (simp add: CompileShader_def CALL_ok [OF ok] Let_def compile_failed_def compile_calls_def)

lemma CompileShader_ok:
  assumes ok: "\<forall>h. call_ok drv h"
  shows "\<exists>sh w'. CompileShader drv type source w = Inr (sh, w')"
proof (cases "compile_failed drv type source (calls w)")
  case True
  from CompileShader_failed [OF ok True] show ?thesis by blast
next
  case False
  from CompileShader_compiled [OF ok False] show ?thesis by blast
qed



lemma CompileShader_calls:
  assumes "CompileShader drv type source w = Inr (sh, w')"
  shows "\<exists>new. calls w' = calls w @ new \<and> filter is_lookup new = []"
  using assms
  by (auto simp: CompileShader_def CALL_eq Let_def and_then_def is_lookup_def
        split: if_splits sum.splits)

lemma CreateShader_returns:
  assumes "CreateShader drv v f w = Inr (p, w')"
  shows "\<exists>vs w2 fs w3.
           CompileShader drv GL_VERTEX_SHADER v (gl GlCreateProgram w) = Inr (vs, w2) \<and>
           CompileShader drv GL_FRAGMENT_SHADER f w2 = Inr (fs, w3) \<and>
           p = uint_result drv (calls w @ [GlCreateProgram]) \<and>
           calls w' = calls w3 @ link_calls p vs fs \<and> cout w' = cout w3"
proof (cases "CompileShader drv GL_VERTEX_SHADER v (gl GlCreateProgram w)")
  case (Inl e)
  with assms show ?thesis by (simp add: CreateShader_def Let_def)
next
  case (Inr r)
  obtain vs w2 where r: "r = (vs, w2)" by (cases r)
  show ?thesis
  proof (cases "CompileShader drv GL_FRAGMENT_SHADER f w2")
    case (Inl e)
    with assms Inr r show ?thesis by (simp add: CreateShader_def Let_def)
  next
    case fr: (Inr q)
    obtain fs w3 where q: "q = (fs, w3)" by (cases q)
    from assms Inr r fr q show ?thesis
      by (simp add: CreateShader_def Let_def CALL_eq link_calls_def split: if_splits) auto
  qed
qed

lemma CreateShader_ok:
  assumes ok: "\<forall>h. call_ok drv h"
    and vs: "CompileShader drv GL_VERTEX_SHADER v (gl GlCreateProgram w) = Inr (vs, w2)"
    and fs: "CompileShader drv GL_FRAGMENT_SHADER f w2 = Inr (fs, w3)"
  shows "CreateShader drv v f w =
           Inr (uint_result drv (calls w @ [GlCreateProgram]),
                \<lparr>calls = calls w3 @ link_calls (uint_result drv (calls w @ [GlCreateProgram])) vs fs,
                 cout = cout w3\<rparr>)"
  by (simp add: CreateShader_def Let_def vs fs CALL_ok [OF ok] link_calls_def)

lemma CreateShader_total:
  assumes ok: "\<forall>h. call_ok drv h"
  shows "\<exists>p w'. CreateShader drv v f w = Inr (p, w')"
proof -
  from CompileShader_ok [OF ok] obtain vs w2 where
    vs: "CompileShader drv GL_VERTEX_SHADER v (gl GlCreateProgram w) = Inr (vs, w2)" by blast
  from CompileShader_ok [OF ok] obtain fs w3 where
    fs: "CompileShader drv GL_FRAGMENT_SHADER f w2 = Inr (fs, w3)" by blast
  from CreateShader_ok [OF ok vs fs] show ?thesis
    by blast
qed


lemma CreateShader_calls:
  assumes "CreateShader drv v f w = Inr (p, w')"
  shows "\<exists>new. calls w' = calls w @ new \<and> filter is_lookup new = []"
proof -
  from CreateShader_returns [OF assms] obtain vs w2 fs w3 where
    vs: "CompileShader drv GL_VERTEX_SHADER v (gl GlCreateProgram w) = Inr (vs, w2)"
    and fs: "CompileShader drv GL_FRAGMENT_SHADER f w2 = Inr (fs, w3)"
    and c: "calls w' = calls w3 @ link_calls p vs fs"
    by blast
  from CompileShader_calls [OF vs] obtain n1 where
    n1: "calls w2 = calls w @ [GlCreateProgram] @ n1" "filter is_lookup n1 = []" by auto
  from CompileShader_calls [OF fs] obtain n2 where
    n2: "calls w3 = calls w2 @ n2" "filter is_lookup n2 = []" by auto
  have "calls w' = calls w @ ([GlCreateProgram] @ n1 @ n2 @ link_calls p vs fs)"
    by (simp add: c n1 n2)
  moreover have "filter is_lookup ([GlCreateProgram] @ n1 @ n2 @ link_calls p vs fs) = []"
    by (simp add: n1 n2 link_calls_def is_lookup_def)
  ultimately show ?thesis by blast
qed

subsection \<open>\<open>init\<close> and \<open>render\<close>\<close>

lemma init_unfold:
  assumes a: "va app = Some a"
    and s: "ParseShader cast fs ''res/shaders/Basic.shader'' = Inr source"
    and c: "CreateShader drv (VertexSource source) (FragmentSource source)
              (w\<lparr>calls := calls w @ init_buffers a\<rparr>) = Inr (shader, w4)"
  shows "init drv cast fs app w =
     (let h = calls w4 @ take 2 (init_uniform a shader 0);
          loc = int_result drv h
      in if (\<forall>n \<in> {1, 2, 3, 5, 6, 7}. call_ok drv (calls w4 @ take n (init_uniform a shader loc)))
            \<and> loc \<noteq> - 1
         then Inr (app\<lparr>vb := Some quad_vb, ib := Some quad_ib, m_Shader := shader, m_UniformLoc := loc\<rparr>,
                   w4\<lparr>calls := calls w4 @ init_uniform a shader loc\<rparr>)
         else Inl AssertionFailed)"
proof -
  have w3: "gl (NewIndexBuffer (IndexBuffer [0, 1, 2, 2, 3, 0] 6))
              (gl (VertexArray_AddBuffer a (VertexBuffer [- f32 (5 / 10), - f32 (5 / 10), f32 (5 / 10),
                     - f32 (5 / 10), f32 (5 / 10), f32 (5 / 10), - f32 (5 / 10), f32 (5 / 10)] (4 * 2 * 4)) [2])
                 (gl (NewVertexBuffer (VertexBuffer [- f32 (5 / 10), - f32 (5 / 10), f32 (5 / 10),
                     - f32 (5 / 10), f32 (5 / 10), f32 (5 / 10), - f32 (5 / 10), f32 (5 / 10)] (4 * 2 * 4))) w))
            = w\<lparr>calls := calls w @ init_buffers a\<rparr>"
    by (simp add: gl_def init_buffers_def quad_vb_def quad_ib_def)
  have "init drv cast fs app w =
      and_then (CALL drv (GlUseProgram shader) w4) (\<lambda>w5.
      and_then (CALL drv (GlGetUniformLocation shader ''u_Color'') w5) (\<lambda>w6.
      and_then (ASSERT (int_result drv (calls w6) \<noteq> - 1) w6) (\<lambda>w7.
      and_then (CALL drv (GlUniform4f (int_result drv (calls w6)) (f32 0) (f32 (3 / 10)) (f32 (8 / 10)) (f32 1)) w7)
        (\<lambda>w8.
      and_then (CALL drv (GlUseProgram 0) (gl (VertexArray_Unbind a) w8)) (\<lambda>w10.
      and_then (CALL drv (GlBindBuffer GL_ARRAY_BUFFER 0) w10) (\<lambda>w11.
      and_then (CALL drv (GlBindBuffer GL_ELEMENT_ARRAY_BUFFER 0) w11) (\<lambda>w12.
      Inr (app\<lparr>vb := Some quad_vb, ib := Some quad_ib, m_Shader := shader,
                m_UniformLoc := int_result drv (calls w6)\<rparr>, w12))))))))"
    unfolding init_def Let_def a option.case w3 s and_then_Inr c prod.case quad_vb_def quad_ib_def
    by simp
  also have "\<dots> =
     (let h = calls w4 @ take 2 (init_uniform a shader 0);
          loc = int_result drv h
      in if (\<forall>n \<in> {1, 2, 3, 5, 6, 7}. call_ok drv (calls w4 @ take n (init_uniform a shader loc)))
            \<and> loc \<noteq> - 1
         then Inr (app\<lparr>vb := Some quad_vb, ib := Some quad_ib, m_Shader := shader, m_UniformLoc := loc\<rparr>,
                   w4\<lparr>calls := calls w4 @ init_uniform a shader loc\<rparr>)
         else Inl AssertionFailed)"
    by (simp add: CALL_eq ASSERT_def gl_def init_uniform_def Let_def)
  finally show ?thesis .
qed

lemma init_located:
  assumes "init drv cast fs app w = Inr (app', w')"
  shows "m_UniformLoc app' \<noteq> - 1 \<and>
         (\<exists>h new. calls w' = calls w @ new \<and>
            prefix (h @ [GlGetUniformLocation (m_Shader app') ''u_Color'']) (calls w') \<and>
            m_UniformLoc app' = int_result drv (h @ [GlGetUniformLocation (m_Shader app') ''u_Color'']) \<and>
            length (filter is_lookup new) = 1)"
proof (cases "va app")
  case None
  with assms show ?thesis by (simp add: init_def Let_def)
next
  case (Some a)
  show ?thesis
  proof (cases "ParseShader cast fs ''res/shaders/Basic.shader''")
    case (Inl e)
    with assms Some show ?thesis by (simp add: init_def Let_def)
  next
    case (Inr source)
    show ?thesis
    proof (cases "CreateShader drv (VertexSource source) (FragmentSource source)
                    (w\<lparr>calls := calls w @ init_buffers a\<rparr>)")
      case cl: (Inl e)
      with assms Some Inr show ?thesis
        by (simp add: init_def Let_def gl_def init_buffers_def quad_vb_def quad_ib_def)
    next
      case cr: (Inr q)
      obtain shader w4 where q: "q = (shader, w4)" by (cases q)
      from cr q have c: "CreateShader drv (VertexSource source) (FragmentSource source)
                           (w\<lparr>calls := calls w @ init_buffers a\<rparr>) = Inr (shader, w4)"
        by simp
      from CreateShader_calls [OF c] obtain n1 where
        n1: "calls w4 = calls w @ init_buffers a @ n1" "filter is_lookup n1 = []"
        by auto
      let ?loc = "int_result drv (calls w4 @ take 2 (init_uniform a shader 0))"
      from assms have e: "app' = app\<lparr>vb := Some quad_vb, ib := Some quad_ib, m_Shader := shader,
                                      m_UniformLoc := ?loc\<rparr>"
        and w': "w' = w4\<lparr>calls := calls w4 @ init_uniform a shader ?loc\<rparr>"
        and l: "?loc \<noteq> - 1"
        unfolding init_unfold [OF Some Inr c] Let_def by (simp_all split: if_splits)
      have t: "take 2 (init_uniform a shader 0) = [GlUseProgram shader, GlGetUniformLocation shader ''u_Color'']"
        by (simp add: init_uniform_def)
      have p: "prefix ((calls w4 @ [GlUseProgram shader]) @ [GlGetUniformLocation (m_Shader app') ''u_Color''])
                 (calls w')"
        by (simp add: w' e init_uniform_def)
      have m: "m_UniformLoc app' =
                 int_result drv ((calls w4 @ [GlUseProgram shader]) @ [GlGetUniformLocation (m_Shader app') ''u_Color''])"
        by (simp add: e t)
      have n: "calls w' = calls w @ (init_buffers a @ n1 @ init_uniform a shader ?loc)"
        by (simp add: w' n1)
      have k: "length (filter is_lookup (init_buffers a @ n1 @ init_uniform a shader ?loc)) = 1"
        by (simp add: n1 init_buffers_def init_uniform_def is_lookup_def)
      from l e have l': "m_UniformLoc app' \<noteq> - 1"
        by simp
      from l' p m n k show ?thesis
        by blast
    qed
  qed
qed

lemma init_assertion:
  assumes ok: "\<forall>h. call_ok drv h"
    and a: "va app = Some a"
    and s: "ParseShader cast fs ''res/shaders/Basic.shader'' = Inr source"
    and l: "\<forall>h p n. int_result drv (h @ [GlGetUniformLocation p n]) = - 1"
  shows "init drv cast fs app w = Inl AssertionFailed"
proof -
  from CreateShader_total [OF ok]
  obtain shader w4 where c: "CreateShader drv (VertexSource source) (FragmentSource source)
                               (w\<lparr>calls := calls w @ init_buffers a\<rparr>) = Inr (shader, w4)"
    by blast
  have "int_result drv (calls w4 @ take 2 (init_uniform a shader 0)) = - 1"
    using l [rule_format, of "calls w4 @ [GlUseProgram shader]" shader "''u_Color''"]
    by (simp add: init_uniform_def)
  then show ?thesis
    unfolding init_unfold [OF a s c] Let_def by simp
qed

lemma render_unfold:
  assumes a: "va app = Some a" and i: "ib app = Some i"
  shows "render drv app w =
     (if \<forall>n \<in> {1, 2, 5}. call_ok drv (calls w @ take n (frame_calls app a i))
      then Inr (app\<lparr>render_r := fst (color_cycle (render_r app, m_Increment app)),
                    m_Increment := snd (color_cycle (render_r app, m_Increment app))\<rparr>,
                w\<lparr>calls := calls w @ frame_calls app a i\<rparr>)
      else Inl AssertionFailed)"
  by (simp add: render_def a i CALL_eq gl_def frame_calls_def Let_def)

lemma render_returns:
  assumes "render drv app w = Inr (app', w')"
  shows "\<exists>a i. va app = Some a \<and> ib app = Some i \<and>
           app' = app\<lparr>render_r := fst (color_cycle (render_r app, m_Increment app)),
                      m_Increment := snd (color_cycle (render_r app, m_Increment app))\<rparr> \<and>
           w' = w\<lparr>calls := calls w @ frame_calls app a i\<rparr>"
proof (cases "va app")
  case None
  with assms show ?thesis
    by (simp add: render_def CALL_eq split: if_splits)
next
  case a: (Some a)
  show ?thesis
  proof (cases "ib app")
    case None
    with assms a show ?thesis
      by (simp add: render_def CALL_eq split: if_splits)
  next
    case (Some i)
    from assms a Some show ?thesis
      unfolding render_unfold [OF a Some] by (auto split: if_splits)
  qed
qed

lemma frame_calls_ok: "\<forall>c \<in> set (frame_calls app a i). frame_call (m_UniformLoc app) c"
  by (simp add: frame_calls_def frame_call_def)

lemma frames_returns:
  "frames drv n app w = Inr (app', w') \<Longrightarrow>
     m_UniformLoc app' = m_UniformLoc app \<and> m_Shader app' = m_Shader app \<and>
     (render_r app', m_Increment app') = (color_cycle ^^ n) (render_r app, m_Increment app) \<and>
     (\<exists>new. calls w' = calls w @ new \<and> (\<forall>c \<in> set new. frame_call (m_UniformLoc app) c))"
proof (induction n arbitrary: app w)
  case 0
  then show ?case by simp
next
  case (Suc n)
  from Suc.prems obtain app1 w1 where
    r: "render drv app w = Inr (app1, w1)" and f: "frames drv n app1 w1 = Inr (app', w')"
    by (cases "render drv app w") auto
  from render_returns [OF r] obtain a i where
    app1: "app1 = app\<lparr>render_r := fst (color_cycle (render_r app, m_Increment app)),
                       m_Increment := snd (color_cycle (render_r app, m_Increment app))\<rparr>"
    and w1: "w1 = w\<lparr>calls := calls w @ frame_calls app a i\<rparr>"
    by blast
  from Suc.IH [OF f] obtain new where
    l: "m_UniformLoc app' = m_UniformLoc app1" and s: "m_Shader app' = m_Shader app1"
    and c: "(render_r app', m_Increment app') = (color_cycle ^^ n) (render_r app1, m_Increment app1)"
    and n: "calls w' = calls w1 @ new" "\<forall>c \<in> set new. frame_call (m_UniformLoc app1) c"
    by blast
  have "(color_cycle ^^ n) (render_r app1, m_Increment app1)
          = (color_cycle ^^ Suc n) (render_r app, m_Increment app)"
    by (simp add: app1 funpow_swap1)
  moreover have "calls w' = calls w @ (frame_calls app a i @ new)"
    by (simp add: n w1)
  moreover have "\<forall>c \<in> set (frame_calls app a i @ new). frame_call (m_UniformLoc app) c"
    using n(2) frame_calls_ok [of app a i] by (auto simp: app1)
  ultimately show ?case
    using l s c by (auto simp: app1)
qed

lemma frames_ok:
  assumes ok: "\<forall>h. call_ok drv h"
  shows "va app = Some a \<Longrightarrow> ib app = Some i \<Longrightarrow> \<exists>app' w'. frames drv n app w = Inr (app', w')"
proof (induction n arbitrary: app w)
  case 0
  then show ?case by simp
next
  case (Suc n)
  let ?app1 = "app\<lparr>render_r := fst (color_cycle (render_r app, m_Increment app)),
                    m_Increment := snd (color_cycle (render_r app, m_Increment app))\<rparr>"
  have r: "render drv app w = Inr (?app1, w\<lparr>calls := calls w @ frame_calls app a i\<rparr>)"
    by (simp add: render_unfold [OF Suc.prems] ok)
  have "va ?app1 = Some a" and "ib ?app1 = Some i"
    using Suc.prems by simp_all
  from Suc.IH [OF this] show ?case
    by (simp add: r)
qed

lemma init_ready:
  assumes "init drv cast fs app w = Inr (app', w')"
  shows "va app' = va app \<and> va app \<noteq> None \<and> ib app' = Some quad_ib"
proof (cases "va app")
  case None
  with assms show ?thesis by (simp add: init_def Let_def)
next
  case (Some a)
  show ?thesis
  proof (cases "ParseShader cast fs ''res/shaders/Basic.shader''")
    case (Inl e)
    with assms Some show ?thesis by (simp add: init_def Let_def)
  next
    case (Inr source)
    show ?thesis
    proof (cases "CreateShader drv (VertexSource source) (FragmentSource source)
                    (w\<lparr>calls := calls w @ init_buffers a\<rparr>)")
      case cl: (Inl e)
      with assms Some Inr show ?thesis
        by (simp add: init_def Let_def gl_def init_buffers_def quad_vb_def quad_ib_def)
    next
      case cr: (Inr q)
      obtain shader w4 where q: "q = (shader, w4)" by (cases q)
      from cr q have c: "CreateShader drv (VertexSource source) (FragmentSource source)
                           (w\<lparr>calls := calls w @ init_buffers a\<rparr>) = Inr (shader, w4)"
        by simp
      let ?loc = "int_result drv (calls w4 @ take 2 (init_uniform a shader 0))"
      from assms have e: "app' = app\<lparr>vb := Some quad_vb, ib := Some quad_ib, m_Shader := shader,
                                      m_UniformLoc := ?loc\<rparr>"
        unfolding init_unfold [OF Some Inr c] Let_def by (simp_all split: if_splits)
      with Some show ?thesis by simp
    qed
  qed
qed

lemma init_checked:
  assumes ok: "\<forall>h. call_ok drv h"
    and a: "va app = Some a"
    and s: "ParseShader cast fs ''res/shaders/Basic.shader'' = Inr source"
  shows "\<exists>shader w4.
     CreateShader drv (VertexSource source) (FragmentSource source)
       (w\<lparr>calls := calls w @ init_buffers a\<rparr>) = Inr (shader, w4) \<and>
     init drv cast fs app w =
       (let loc = int_result drv (calls w4 @ [GlUseProgram shader, GlGetUniformLocation shader ''u_Color''])
        in if loc \<noteq> - 1
           then Inr (app\<lparr>vb := Some quad_vb, ib := Some quad_ib, m_Shader := shader, m_UniformLoc := loc\<rparr>,
                     w4\<lparr>calls := calls w4 @ init_uniform a shader loc\<rparr>)
           else Inl AssertionFailed)"
proof -
  from CreateShader_total [OF ok]
  obtain shader w4 where c: "CreateShader drv (VertexSource source) (FragmentSource source)
                               (w\<lparr>calls := calls w @ init_buffers a\<rparr>) = Inr (shader, w4)"
    by blast
  have t: "take 2 (init_uniform a shader 0) = [GlUseProgram shader, GlGetUniformLocation shader ''u_Color'']"
    by (simp add: init_uniform_def)
  have "init drv cast fs app w =
       (let loc = int_result drv (calls w4 @ [GlUseProgram shader, GlGetUniformLocation shader ''u_Color''])
        in if loc \<noteq> - 1
           then Inr (app\<lparr>vb := Some quad_vb, ib := Some quad_ib, m_Shader := shader, m_UniformLoc := loc\<rparr>,
                     w4\<lparr>calls := calls w4 @ init_uniform a shader loc\<rparr>)
           else Inl AssertionFailed)"
    unfolding init_unfold [OF a s c] t Let_def using ok by simp
  with c show ?thesis by blast
qed

lemma frames_draw_calls:
  "frames drv n app w = Inr (app', w') \<Longrightarrow> va app = Some a \<Longrightarrow> ib app = Some i \<Longrightarrow>
     calls w' = calls w @ draw_calls n app a i"
proof (induction n arbitrary: app w)
  case 0
  then show ?case by simp
next
  case (Suc n)
  let ?app1 = "app\<lparr>render_r := fst (color_cycle (render_r app, m_Increment app)),
                    m_Increment := snd (color_cycle (render_r app, m_Increment app))\<rparr>"
  from Suc.prems(1) obtain app1 w1 where
    r: "render drv app w = Inr (app1, w1)" and f: "frames drv n app1 w1 = Inr (app', w')"
    by (cases "render drv app w") auto
  from render_returns [OF r] Suc.prems(2,3) have
    app1: "app1 = ?app1" and w1: "w1 = w\<lparr>calls := calls w @ frame_calls app a i\<rparr>"
    by auto
  have "va app1 = Some a" and "ib app1 = Some i"
    using Suc.prems(2,3) by (simp_all add: app1)
  from Suc.IH [OF f this] show ?case
    by (simp add: w1 app1)
qed

lemma frames_objects:
  assumes "frames drv n app w = Inr (app', w')"
  shows "n = 0 \<and> w' = w \<or> (\<exists>a i. va app = Some a \<and> ib app = Some i)"
proof (cases n)
  case 0
  with assms show ?thesis by simp
next
  case (Suc m)
  with assms obtain app1 w1 where r: "render drv app w = Inr (app1, w1)"
    by (cases "render drv app w") auto
  from render_returns [OF r] show ?thesis by blast
qed

lemma draw_calls_locations:
  "uniform_locations (draw_calls n app a i) = replicate n (m_UniformLoc app)"
  by (induction n arbitrary: app) (simp_all add: uniform_locations_def frame_calls_def)

lemma draw_calls_lookup: "filter is_lookup (draw_calls n app a i) = []"
  by (induction n arbitrary: app) (simp_all add: is_lookup_def frame_calls_def)

subsection \<open>Runs with the concrete drivers\<close>


lemma accepting_ok: "\<forall>h. call_ok driver_accepting h"
  by (simp add: driver_accepting_def)

lemma without_uniform_ok: "\<forall>h. call_ok driver_without_uniform h"
  by (simp add: driver_without_uniform_def)


lemma ParseShader_scenario:
  "ParseShader cast_default fs_scenario ''res/shaders/Basic.shader'' =
     Inr \<lparr>VertexSource = ''A'' @ [newline], FragmentSource = ''B'' @ [newline]\<rparr>"
  by (simp add: ParseShader_def fs_scenario_def run_simps lines_scenario cast_default_def)

subsection \<open>Claims about the program builder\<close>





text \<open>
  Claim C7.  When \<open>init\<close> returns, the location in \<open>m_UniformLoc\<close> is the driver's answer to
  the one call of \<open>glGetUniformLocation\<close> that \<open>init\<close> makes, and it is not \<open>-1\<close>; it is not
  negative when the driver answers every such call with \<open>-1\<close> or with a location that is
  not negative, the test of \<open>init\<close> being against \<open>-1\<close> alone.  When the driver answers
  \<open>-1\<close>, \<open>init\<close> does not return: it halts, and by the failed assertion when it got that
  far.  Where no error check fires, \<open>init\<close> halts by the assertion on the answer \<open>-1\<close> and
  otherwise returns with the answer in \<open>m_UniformLoc\<close>.  A frame that returns has made
  exactly its five calls, setting the colour at the location in \<open>m_UniformLoc\<close>, and has
  left \<open>m_UniformLoc\<close> as it was; so \<open>n\<close> frames set the colour \<open>n\<close> times, each time at that
  location, and never resolve the name again.  Where no error check fires and the
  objects are there, the frames return.
\<close>

theorem uniform_location_cached:
  "(\<forall>app' w'. init drv cast fs app w = Inr (app', w') \<longrightarrow>
      m_UniformLoc app' \<noteq> - 1 \<and>
      (\<exists>h new. calls w' = calls w @ new \<and>
         prefix (h @ [GlGetUniformLocation (m_Shader app') ''u_Color'']) (calls w') \<and>
         m_UniformLoc app' = int_result drv (h @ [GlGetUniformLocation (m_Shader app') ''u_Color'']) \<and>
         length (filter is_lookup new) = 1) \<and>
      ((\<forall>h p s. int_result drv (h @ [GlGetUniformLocation p s]) = - 1 \<or>
                0 \<le> sint (int_result drv (h @ [GlGetUniformLocation p s]))) \<longrightarrow>
         0 \<le> sint (m_UniformLoc app')) \<and>
      va app' = va app \<and> va app \<noteq> None \<and> ib app' = Some quad_ib) \<and>
   ((\<forall>h p n. int_result drv (h @ [GlGetUniformLocation p n]) = - 1) \<longrightarrow>
      (\<exists>e. init drv cast fs app w = Inl e) \<and>
      ((\<forall>h. call_ok drv h) \<and> va app \<noteq> None \<and>
       (\<exists>source. ParseShader cast fs ''res/shaders/Basic.shader'' = Inr source) \<longrightarrow>
         init drv cast fs app w = Inl AssertionFailed)) \<and>
   (\<forall>a source. (\<forall>h. call_ok drv h) \<and> va app = Some a \<and>
       ParseShader cast fs ''res/shaders/Basic.shader'' = Inr source \<longrightarrow>
      (\<exists>shader w4.
         CreateShader drv (VertexSource source) (FragmentSource source)
           (w\<lparr>calls := calls w @ init_buffers a\<rparr>) = Inr (shader, w4) \<and>
         init drv cast fs app w =
           (let loc = int_result drv
                        (calls w4 @ [GlUseProgram shader, GlGetUniformLocation shader ''u_Color''])
            in if loc \<noteq> - 1
               then Inr (app\<lparr>vb := Some quad_vb, ib := Some quad_ib, m_Shader := shader,
                             m_UniformLoc := loc\<rparr>,
                         w4\<lparr>calls := calls w4 @ init_uniform a shader loc\<rparr>)
               else Inl AssertionFailed))) \<and>
   (\<forall>app' w'. render drv app w = Inr (app', w') \<longrightarrow>
      m_UniformLoc app' = m_UniformLoc app \<and>
      (\<exists>a i. va app = Some a \<and> ib app = Some i \<and>
         calls w' = calls w @
           [GlUseProgram (m_Shader app),
            GlUniform4f (m_UniformLoc app) (render_r app) (f32 (3 / 10)) (f32 (8 / 10)) (f32 1),
            VertexArray_Bind a, IndexBuffer_Bind i,
            GlDrawElements GL_TRIANGLES 6 GL_UNSIGNED_INT])) \<and>
   (\<forall>n app' w'. frames drv n app w = Inr (app', w') \<longrightarrow>
      m_UniformLoc app' = m_UniformLoc app \<and>
      (\<exists>new. calls w' = calls w @ new \<and> filter is_lookup new = [] \<and>
         uniform_locations new = replicate n (m_UniformLoc app) \<and>
         (\<forall>a i. va app = Some a \<and> ib app = Some i \<longrightarrow> new = draw_calls n app a i))) \<and>
   (\<forall>n. (\<forall>h. call_ok drv h) \<and> va app \<noteq> None \<and> ib app \<noteq> None \<longrightarrow>
      (\<exists>app' w'. frames drv n app w = Inr (app', w')))"
proof (intro conjI allI impI)
  fix app' w'
  assume i: "init drv cast fs app w = Inr (app', w')"
  from init_located [OF i] show "m_UniformLoc app' \<noteq> - 1" by blast
  from init_located [OF i] show "\<exists>h new. calls w' = calls w @ new \<and>
         prefix (h @ [GlGetUniformLocation (m_Shader app') ''u_Color'']) (calls w') \<and>
         m_UniformLoc app' = int_result drv (h @ [GlGetUniformLocation (m_Shader app') ''u_Color'']) \<and>
         length (filter is_lookup new) = 1" by blast
  from init_ready [OF i] show "va app' = va app" and "va app \<noteq> None" and "ib app' = Some quad_ib"
    by blast+
  assume d: "\<forall>h p s. int_result drv (h @ [GlGetUniformLocation p s]) = - 1 \<or>
                0 \<le> sint (int_result drv (h @ [GlGetUniformLocation p s]))"
  from init_located [OF i] obtain h where
    "m_UniformLoc app' = int_result drv (h @ [GlGetUniformLocation (m_Shader app') ''u_Color''])"
    and "m_UniformLoc app' \<noteq> - 1"
    by blast
  with d [rule_format, of h "m_Shader app'" "''u_Color''"] show "0 \<le> sint (m_UniformLoc app')"
    by auto
next
  assume l: "\<forall>h p n. int_result drv (h @ [GlGetUniformLocation p n]) = - 1"
  show "\<exists>e. init drv cast fs app w = Inl e"
  proof (cases "init drv cast fs app w")
    case (Inl e)
    then show ?thesis by blast
  next
    case (Inr q)
    obtain app' w' where "q = (app', w')" by (cases q)
    with Inr init_located [of drv cast fs app w app' w'] l show ?thesis by auto
  qed
  assume "(\<forall>h. call_ok drv h) \<and> va app \<noteq> None \<and>
       (\<exists>source. ParseShader cast fs ''res/shaders/Basic.shader'' = Inr source)"
  then obtain a source where "\<forall>h. call_ok drv h" and "va app = Some a"
    and "ParseShader cast fs ''res/shaders/Basic.shader'' = Inr source"
    by auto
  from init_assertion [OF this l] show "init drv cast fs app w = Inl AssertionFailed" .
next
  fix a source
  assume "(\<forall>h. call_ok drv h) \<and> va app = Some a \<and>
       ParseShader cast fs ''res/shaders/Basic.shader'' = Inr source"
  then have "\<forall>h. call_ok drv h" and "va app = Some a"
    and "ParseShader cast fs ''res/shaders/Basic.shader'' = Inr source"
    by blast+
  from init_checked [OF this] show "\<exists>shader w4.
         CreateShader drv (VertexSource source) (FragmentSource source)
           (w\<lparr>calls := calls w @ init_buffers a\<rparr>) = Inr (shader, w4) \<and>
         init drv cast fs app w =
           (let loc = int_result drv
                        (calls w4 @ [GlUseProgram shader, GlGetUniformLocation shader ''u_Color''])
            in if loc \<noteq> - 1
               then Inr (app\<lparr>vb := Some quad_vb, ib := Some quad_ib, m_Shader := shader,
                             m_UniformLoc := loc\<rparr>,
                         w4\<lparr>calls := calls w4 @ init_uniform a shader loc\<rparr>)
               else Inl AssertionFailed)" .
next
  fix app' w'
  assume r: "render drv app w = Inr (app', w')"
  from render_returns [OF r] show "m_UniformLoc app' = m_UniformLoc app"
    by auto
  from render_returns [OF r] show "\<exists>a i. va app = Some a \<and> ib app = Some i \<and>
         calls w' = calls w @
           [GlUseProgram (m_Shader app),
            GlUniform4f (m_UniformLoc app) (render_r app) (f32 (3 / 10)) (f32 (8 / 10)) (f32 1),
            VertexArray_Bind a, IndexBuffer_Bind i,
            GlDrawElements GL_TRIANGLES 6 GL_UNSIGNED_INT]"
    by (auto simp: frame_calls_def)
next
  fix n app' w'
  assume f: "frames drv n app w = Inr (app', w')"
  from frames_returns [OF f] show "m_UniformLoc app' = m_UniformLoc app" by blast
  from frames_objects [OF f]
  show "\<exists>new. calls w' = calls w @ new \<and> filter is_lookup new = [] \<and>
         uniform_locations new = replicate n (m_UniformLoc app) \<and>
         (\<forall>a i. va app = Some a \<and> ib app = Some i \<longrightarrow> new = draw_calls n app a i)"
  proof
    assume "n = 0 \<and> w' = w"
    then have "calls w' = calls w @ []" and "filter is_lookup [] = []"
      and "uniform_locations [] = replicate n (m_UniformLoc app)"
      and "\<forall>a i. va app = Some a \<and> ib app = Some i \<longrightarrow> [] = draw_calls n app a i"
      by (simp_all add: uniform_locations_def)
    then show ?thesis by blast
  next
    assume "\<exists>a i. va app = Some a \<and> ib app = Some i"
    then obtain a i where a: "va app = Some a" and i: "ib app = Some i" by blast
    from frames_draw_calls [OF f a i] have "calls w' = calls w @ draw_calls n app a i" .
    moreover have "\<forall>a' i'. va app = Some a' \<and> ib app = Some i' \<longrightarrow>
                     draw_calls n app a i = draw_calls n app a' i'"
      using a i by simp
    ultimately show ?thesis
      using draw_calls_lookup [of n app a i] draw_calls_locations [of n app a i] by blast
  qed
next
  fix n
  assume "(\<forall>h. call_ok drv h) \<and> va app \<noteq> None \<and> ib app \<noteq> None"
  then obtain a i where "\<forall>h. call_ok drv h" and "va app = Some a" and "ib app = Some i"
    by auto
  from frames_ok [OF this] show "\<exists>app' w'. frames drv n app w = Inr (app', w')" .
qed

text \<open>
  The theorem with a driver that knows the uniform at location 3, for \<open>init\<close> and the two
  frames after it, which set the colour at location 3 twice, and with a driver that does
  not know the uniform.
\<close>

theorem uniform_location_cached_witness:
  "(\<exists>app' w'. init driver_accepting cast_default fs_scenario app_start world_start = Inr (app', w') \<and>
      m_UniformLoc app' = 3 \<and> 0 \<le> sint (m_UniformLoc app') \<and>
      (\<exists>app'' w'' new. frames driver_accepting 2 app' w' = Inr (app'', w'') \<and>
         m_UniformLoc app'' = 3 \<and> calls w'' = calls w' @ new \<and>
         filter is_lookup new = [] \<and> uniform_locations new = [3, 3] \<and>
         new = draw_calls 2 app' VertexArray quad_ib)) \<and>
   init driver_without_uniform cast_default fs_scenario app_start world_start = Inl AssertionFailed"
proof -
  have a: "va app_start = Some VertexArray"
    by (simp add: app_start_def)
  note t1 = uniform_location_cached [of driver_accepting cast_default fs_scenario app_start world_start]
  from t1 accepting_ok a ParseShader_scenario obtain shader w4 where
    i0: "init driver_accepting cast_default fs_scenario app_start world_start =
          (let loc = int_result driver_accepting
                       (calls w4 @ [GlUseProgram shader, GlGetUniformLocation shader ''u_Color''])
           in if loc \<noteq> - 1
              then Inr (app_start\<lparr>vb := Some quad_vb, ib := Some quad_ib, m_Shader := shader,
                                  m_UniformLoc := loc\<rparr>,
                        w4\<lparr>calls := calls w4 @ init_uniform VertexArray shader loc\<rparr>)
              else Inl AssertionFailed)"
    by blast
  let ?app = "app_start\<lparr>vb := Some quad_vb, ib := Some quad_ib, m_Shader := shader, m_UniformLoc := 3\<rparr>"
  let ?w = "w4\<lparr>calls := calls w4 @ init_uniform VertexArray shader 3\<rparr>"
  have i: "init driver_accepting cast_default fs_scenario app_start world_start = Inr (?app, ?w)"
    unfolding i0 by (simp add: driver_accepting_def)
  have d: "\<forall>h p s. int_result driver_accepting (h @ [GlGetUniformLocation p s]) = - 1 \<or>
             0 \<le> sint (int_result driver_accepting (h @ [GlGetUniformLocation p s]))"
    by (simp add: driver_accepting_def)
  from t1 i d have n: "0 \<le> sint (m_UniformLoc ?app)"
    by blast
  note t2 = uniform_location_cached [of driver_accepting cast_default fs_scenario ?app ?w]
  have o: "va ?app \<noteq> None" "ib ?app \<noteq> None" "va ?app = Some VertexArray" "ib ?app = Some quad_ib"
    by (simp_all add: a)
  from t2 accepting_ok o(1,2) obtain app'' w'' where
    f: "frames driver_accepting 2 ?app ?w = Inr (app'', w'')"
    by blast
  from t2 f obtain new where
    l: "m_UniformLoc app'' = m_UniformLoc ?app"
    and c: "calls w'' = calls ?w @ new" "filter is_lookup new = []"
      "uniform_locations new = replicate 2 (m_UniformLoc ?app)"
    and e: "\<forall>a i. va ?app = Some a \<and> ib ?app = Some i \<longrightarrow> new = draw_calls 2 ?app a i"
    by blast
  from e o(3,4) have e': "new = draw_calls 2 ?app VertexArray quad_ib"
    by blast
  from c(3) have u: "uniform_locations new = [3, 3]"
    by (simp add: numeral_2_eq_2)
  from l have l': "m_UniformLoc app'' = 3"
    by simp
  have m: "m_UniformLoc ?app = 3"
    by simp
  note t3 = uniform_location_cached [of driver_without_uniform cast_default fs_scenario app_start world_start]
  have "\<forall>h p n. int_result driver_without_uniform (h @ [GlGetUniformLocation p n]) = - 1"
    by (simp add: driver_without_uniform_def)
  with t3 without_uniform_ok a ParseShader_scenario
  have x: "init driver_without_uniform cast_default fs_scenario app_start world_start = Inl AssertionFailed"
    by auto
  from i m n f l' c(1,2) u e' x show ?thesis
    by blast
qed

section \<open>Properties of the colour cycle\<close>

subsection \<open>Rounding on integers\<close>

lemma bitlen_One: "bitlen 1 = 1"
  by (simp add: bitlen_alt_def)

lemma bitlen_Bit0: "bitlen (numeral (Num.Bit0 n)) = bitlen (numeral n) + 1"
  by (subst compute_bitlen) simp

lemma bitlen_Bit1: "bitlen (numeral (Num.Bit1 n)) = bitlen (numeral n) + 1"
  by (subst compute_bitlen) simp

lemma round_even_of_quot:
  assumes "0 < M"
  shows "round_even (of_int N / of_int M) = round_even_quot N M"
proof -
  have fl: "\<lfloor>(of_int N :: rat) / of_int M\<rfloor> = N div M"
    by (rule floor_divide_of_int_eq)
  have "(of_int N :: rat) = of_int (N div M) * of_int M + of_int (N mod M)"
    by (metis of_int_add of_int_mult div_mult_mod_eq)
  with assms have d: "(of_int N :: rat) / of_int M - of_int (N div M) = of_int (N mod M) / of_int M"
    by (simp add: field_simps)
  have lt: "(of_int (N mod M) / of_int M < (1 / 2 :: rat)) = (2 * (N mod M) < M)"
  proof -
    have "(of_int (N mod M) / of_int M < (1 / 2 :: rat)) = ((of_int (2 * (N mod M)) :: rat) < of_int M)"
      using assms by (simp add: field_simps)
    then show ?thesis by (simp only: of_int_less_iff)
  qed
  have gt: "((1 / 2 :: rat) < of_int (N mod M) / of_int M) = (M < 2 * (N mod M))"
  proof -
    have "((1 / 2 :: rat) < of_int (N mod M) / of_int M) = ((of_int M :: rat) < of_int (2 * (N mod M)))"
      using assms by (simp add: field_simps)
    then show ?thesis by (simp only: of_int_less_iff)
  qed
  show ?thesis
    unfolding round_even_def round_even_quot_def Let_def fl d lt gt ..
qed

lemma f32_of_quot:
  assumes "0 < b"
  shows "f32 (of_int a / of_int b) = units (f32_quot a b)"
proof -
  let ?N = "a * 2 ^ 149"
  have y: "(of_int a / of_int b :: rat) * 2 ^ 149 = of_int ?N / of_int b"
    by simp
  have "\<bar>(of_int ?N :: rat) / of_int b\<bar> = of_int \<bar>?N\<bar> / of_int b"
    using assms by (simp add: abs_mult)
  then have fl: "\<lfloor>\<bar>(of_int ?N :: rat) / of_int b\<bar>\<rfloor> = \<bar>?N\<bar> div b"
    by (simp only: floor_divide_of_int_eq)
  let ?q = "(2::int) ^ nat (bitlen (\<bar>?N\<bar> div b) - 24)"
  have q: "0 < ?q" by simp
  have "(of_int ?N :: rat) / of_int b / of_int ?q = of_int ?N / of_int (b * ?q)"
    by simp
  moreover have "0 < b * ?q" using assms q by simp
  ultimately have "round_even ((of_int ?N :: rat) / of_int b / of_int ?q) = round_even_quot ?N (b * ?q)"
    by (simp only: round_even_of_quot)
  then show ?thesis
    unfolding f32_def f32_quot_def units_def Let_def y fl by simp
qed

lemma f32_units: "f32 (units k) = units (round24 k)"
proof -
  have y: "units k * 2 ^ 149 = of_int k"
    by (simp add: units_def)
  have fl: "\<lfloor>\<bar>(of_int k :: rat)\<bar>\<rfloor> = \<bar>k\<bar>"
    by (metis floor_of_int of_int_abs)
  let ?q = "(2::int) ^ nat (bitlen \<bar>k\<bar> - 24)"
  have "0 < ?q" by simp
  then have r: "round_even ((of_int k :: rat) / of_int ?q) = round_even_quot k ?q"
    by (rule round_even_of_quot)
  have "f32 (units k) = of_int (round_even ((of_int k :: rat) / of_int ?q) * ?q) / 2 ^ 149"
    unfolding f32_def Let_def y fl ..
  also have "\<dots> = units (round24 k)"
    unfolding r round24_def Let_def units_def ..
  finally show ?thesis .
qed

lemma units_less [simp]: "units a < units b \<longleftrightarrow> a < b"
  by (simp add: units_def divide_less_cancel)

lemma units_eq [simp]: "units a = units b \<longleftrightarrow> a = b"
  by (simp add: units_def)

lemma units_add: "units a + units b = units (a + b)"
  by (simp add: units_def add_divide_distrib)

lemma units_minus: "- units a = units (- a)"
  by (simp add: units_def)

lemma units_zero: "units 0 = 0"
  by (simp add: units_def)

lemma units_one: "units (2 ^ 149) = 1"
  by (simp add: units_def)

lemma less_units_zero [simp]: "units a < 0 \<longleftrightarrow> a < 0"
  using units_less [of a 0] by (simp only: units_zero)

lemma one_less_units [simp]: "1 < units a \<longleftrightarrow> 2 ^ 149 < a"
  using units_less [of "2 ^ 149" a] by (simp only: units_one)

lemma units_less_one [simp]: "units a < 1 \<longleftrightarrow> a < 2 ^ 149"
  using units_less [of a "2 ^ 149"] by (simp only: units_one)

lemma f32_zero: "f32 0 = 0"
  using f32_units [of 0] by (simp add: units_zero round24_def round_even_quot_def)

lemma f32_one_hundredth: "f32 (1 / 100) = units (5368709 * 2 ^ 120)"
proof -
  have "f32_quot 1 100 = 5368709 * 2 ^ 120"
    by (simp add: f32_quot_def round_even_quot_def Let_def bitlen_One bitlen_Bit0 bitlen_Bit1)
  with f32_of_quot [of 100 1] show ?thesis by simp
qed

lemma f32_five_hundredths: "f32 (5 / 100) = units (13421773 * 2 ^ 121)"
proof -
  have "f32_quot 5 100 = 13421773 * 2 ^ 121"
    by (simp add: f32_quot_def round_even_quot_def Let_def bitlen_One bitlen_Bit0 bitlen_Bit1)
  with f32_of_quot [of 100 5] show ?thesis by simp
qed

lemma color_cycle_units: "color_cycle (units a, units b) = map_prod units units (cc_int (a, b))"
  by (simp add: color_cycle_def cc_int_def f32_add_def Let_def f32_one_hundredth units_minus
        units_add f32_units)

lemma funpow_units:
  "(color_cycle ^^ n) (units a, units b) = map_prod units units ((cc_int ^^ n) (a, b))"
proof (induction n)
  case 0
  show ?case by simp
next
  case (Suc n)
  obtain a' b' where s: "(cc_int ^^ n) (a, b) = (a', b')"
    by (cases "(cc_int ^^ n) (a, b)")
  with Suc show ?case
    by (simp add: color_cycle_units)
qed

subsection \<open>Running the cycle\<close>

lemma checked_run_sound:
  "checked_run P k s = Some t \<Longrightarrow>
     t = (cc_int ^^ k) s \<and> (\<forall>j<k. P ((cc_int ^^ j) s) ((cc_int ^^ Suc j) s))"
proof (induction k arbitrary: s)
  case 0
  then show ?case by simp
next
  case (Suc k)
  from Suc.prems have p: "P s (cc_int s)" and r: "checked_run P k (cc_int s) = Some t"
    by (simp_all add: Let_def split: if_splits)
  from Suc.IH [OF r] have t: "t = (cc_int ^^ k) (cc_int s)"
    and a: "\<forall>j<k. P ((cc_int ^^ j) (cc_int s)) ((cc_int ^^ Suc j) (cc_int s))"
    by blast+
  have "P ((cc_int ^^ j) s) ((cc_int ^^ Suc j) s)" if "j < Suc k" for j
  proof (cases j)
    case 0
    with p show ?thesis by simp
  next
    case (Suc i)
    with that have "i < k" by simp
    with a have "P ((cc_int ^^ i) (cc_int s)) ((cc_int ^^ Suc i) (cc_int s))" by blast
    then show ?thesis
      unfolding Suc by (simp only: funpow_swap1 funpow.simps o_apply)
  qed
  with t show ?case
    by (simp add: funpow_swap1)
qed

lemma checked_run_numeral:
  "checked_run P (numeral k) s =
     (let s' = cc_int s in if P s s' then checked_run P (pred_numeral k) s' else None)"
  by (simp add: numeral_eq_Suc)

lemma round24_drop_bit:
  "round24 k =
     (let e = nat (bitlen \<bar>k\<bar> - 24); q = 2 ^ e; d = drop_bit e k; r = k - d * q
      in (if 2 * r < q then d else if q < 2 * r then d + 1 else if even d then d else d + 1) * q)"
proof -
  have d: "drop_bit e k = k div 2 ^ e" for e
    by (rule drop_bit_eq_div)
  have r: "k - k div q * q = k mod q" for q
    by (rule minus_div_mult_eq_mod)
  show ?thesis
    unfolding round24_def round_even_quot_def Let_def d r ..
qed

lemma round24_numeral:
  "round24 (numeral n) =
     (let e = nat (bitlen (numeral n) - 24); q = 2 ^ e; d = drop_bit e (numeral n); r = numeral n - d * q
      in (if 2 * r < q then d else if q < 2 * r then d + 1 else if even d then d else d + 1) * q)"
  by (subst round24_drop_bit) (simp only: abs_numeral)

lemma round24_neg_numeral:
  "round24 (- numeral n) =
     (let e = nat (bitlen (numeral n) - 24); q = 2 ^ e; d = drop_bit e (- numeral n); r = - numeral n - d * q
      in (if 2 * r < q then d else if q < 2 * r then d + 1 else if even d then d else d + 1) * q)"
  by (subst round24_drop_bit) (simp only: abs_neg_numeral)

lemma round24_zero: "round24 0 = 0"
  by (simp add: round24_def round_even_quot_def)

lemma cc_int_pair:
  "cc_int (a, b) =
     (let inc1 = (if 2 ^ 149 < a then - (5368709 * 2 ^ 120) else b);
          inc2 = (if a < 0 then 5368709 * 2 ^ 120 else inc1)
      in (round24 (a + inc2), inc2))"
  unfolding cc_int_def fst_conv snd_conv ..

lemmas run_eval = checked_run_numeral cc_int_pair round24_numeral
  round24_neg_numeral round24_zero Let_def bitlen_One bitlen_Bit0 bitlen_Bit1

lemma run_first_rise:
  "checked_run (\<lambda>s s'. fst s < 2 ^ 149 \<and> fst s < fst s') 20 (0, 13421773 * 2 ^ 121)
     = Some (8388609 * 2 ^ 126, 13421773 * 2 ^ 121)"
  by (simp add: run_eval)

lemma run_fall:
  "checked_run (\<lambda>s s'. fst s' < fst s \<and> snd s' = - (5368709 * 2 ^ 120)) 101
       (8388609 * 2 ^ 126, 13421773 * 2 ^ 121)
     = Some (- (5368285 * 2 ^ 120), - (5368709 * 2 ^ 120))"
  by (simp add: run_eval)

lemma run_rise:
  "checked_run (\<lambda>s s'. fst s < fst s' \<and> snd s' = 5368709 * 2 ^ 120) 101
       (- (5368285 * 2 ^ 120), - (5368709 * 2 ^ 120))
     = Some (8388609 * 2 ^ 126, 5368709 * 2 ^ 120)"
  by (simp add: run_eval)

lemma step_after_rise:
  "cc_int (8388609 * 2 ^ 126, 5368709 * 2 ^ 120) = cc_int (8388609 * 2 ^ 126, 13421773 * 2 ^ 121)"
  by (simp add: cc_int_pair)

subsection \<open>The first 223 frames\<close>

lemma color_after_units: "color_after n = map_prod units units (state_after n)"
proof -
  have "render_r Application_new = f32 0" and "m_Increment Application_new = f32 (5 / 100)"
    unfolding Application_new_def by (simp_all only: Application.select_convs)
  then have "render_r Application_new = units 0"
    and "m_Increment Application_new = units (13421773 * 2 ^ 121)"
    by (simp_all only: f32_zero units_zero f32_five_hundredths)
  then show ?thesis
    by (simp only: color_after_def state_after_def funpow_units)
qed

lemma color_after_fst: "fst (color_after n) = units (fst (state_after n))"
  by (simp add: color_after_units)

lemma color_after_snd: "snd (color_after n) = units (snd (state_after n))"
  by (simp add: color_after_units)

lemma state_after_add: "state_after (m + n) = (cc_int ^^ n) (state_after m)"
  by (simp add: state_after_def add.commute [of m n] funpow_add)

lemma state_after_Suc: "state_after (Suc n) = cc_int (state_after n)"
  by (simp add: state_after_def)

lemma state_20: "state_after 20 = (8388609 * 2 ^ 126, 13421773 * 2 ^ 121)"
  using checked_run_sound [OF run_first_rise] by (simp only: state_after_def)

lemma state_after_first_rise:
  assumes "n < 20"
  shows "fst (state_after n) < 2 ^ 149 \<and> fst (state_after n) < fst (state_after (Suc n))"
  using checked_run_sound [OF run_first_rise] assms
  unfolding state_after_def by (simp only: fst_conv snd_conv)

lemma state_121: "state_after 121 = (- (5368285 * 2 ^ 120), - (5368709 * 2 ^ 120))"
proof -
  have "state_after (20 + 101) = (cc_int ^^ 101) (state_after 20)"
    by (rule state_after_add)
  with checked_run_sound [OF run_fall] show ?thesis
    by (simp add: state_20)
qed

lemma state_after_fall:
  assumes "20 \<le> n" and "n < 121"
  shows "fst (state_after (Suc n)) < fst (state_after n) \<and>
         snd (state_after (Suc n)) = - (5368709 * 2 ^ 120)"
proof -
  from assms have "n = 20 + (n - 20)" and "n - 20 < 101"
    by simp_all
  then obtain j where n: "n = 20 + j" and j: "j < 101"
    by blast
  from checked_run_sound [OF run_fall] j
  have "fst ((cc_int ^^ Suc j) (state_after 20)) < fst ((cc_int ^^ j) (state_after 20)) \<and>
        snd ((cc_int ^^ Suc j) (state_after 20)) = - (5368709 * 2 ^ 120)"
    by (simp only: state_20 fst_conv snd_conv)
  then show ?thesis
    unfolding n add_Suc_right [symmetric] state_after_add .
qed

lemma state_222: "state_after 222 = (8388609 * 2 ^ 126, 5368709 * 2 ^ 120)"
proof -
  have "state_after (121 + 101) = (cc_int ^^ 101) (state_after 121)"
    by (rule state_after_add)
  with checked_run_sound [OF run_rise] show ?thesis
    by (simp add: state_121)
qed

lemma state_after_rise:
  assumes "121 \<le> n" and "n < 222"
  shows "fst (state_after n) < fst (state_after (Suc n)) \<and>
         snd (state_after (Suc n)) = 5368709 * 2 ^ 120"
proof -
  from assms have "n = 121 + (n - 121)" and j: "n - 121 < 101"
    by simp_all
  then obtain j where n: "n = 121 + j" and j: "j < 101"
    by blast
  from checked_run_sound [OF run_rise] j
  have "fst ((cc_int ^^ j) (state_after 121)) < fst ((cc_int ^^ Suc j) (state_after 121)) \<and>
        snd ((cc_int ^^ Suc j) (state_after 121)) = 5368709 * 2 ^ 120"
    by (simp only: state_121 fst_conv snd_conv)
  then show ?thesis
    unfolding n add_Suc_right [symmetric] state_after_add .
qed

lemma state_223: "state_after 223 = state_after 21"
proof -
  have a: "state_after 223 = cc_int (state_after 222)"
    using state_after_Suc [of 222] by simp
  have b: "state_after 21 = cc_int (state_after 20)"
    using state_after_Suc [of 20] by simp
  show ?thesis
    by (simp only: a b state_222 state_20 step_after_rise)
qed

lemma state_after_period:
  assumes "21 \<le> n"
  shows "state_after (n + 202) = state_after n"
proof -
  from assms have "n = 21 + (n - 21)" by simp
  then obtain j where n: "n = 21 + j" by blast
  have "state_after (223 + j) = (cc_int ^^ j) (state_after 223)"
    by (rule state_after_add)
  also have "\<dots> = state_after (21 + j)"
    by (simp only: state_223 state_after_add)
  finally show ?thesis
    by (simp add: n add.commute add.left_commute)
qed

subsection \<open>The claim about the animated scalar\<close>

text \<open>
  Claim C8.  \<open>r\<close> starts at 0 and the step at \<open>0.05f\<close>.  Each frame sets the step to
  \<open>-0.01f\<close> when \<open>r\<close> is above 1 and to \<open>0.01f\<close> when \<open>r\<close> is below 0, then adds the step to
  \<open>r\<close>; it sends the colour with the constant channels \<open>0.3f\<close>, \<open>0.8f\<close> and \<open>1.0f\<close>.  In
  binary32 arithmetic \<open>r\<close> rises for 20 frames and is then at least 1; the step is \<open>-0.01f\<close>
  from frame 21 on and \<open>r\<close> falls in every frame up to frame 121, where it is below 0;
  the step is \<open>0.01f\<close> from frame 122 on and \<open>r\<close> rises in every frame up to frame 222,
  where it is above 1 again; from frame 21 on the values repeat every 202 frames.
\<close>

theorem color_cycle_oscillates:
  "render_r Application_new = 0 \<and> m_Increment Application_new = f32 (5 / 100) \<and>
   (\<forall>r inc. snd (color_cycle (r, inc))
               = (if r < 0 then f32 (1 / 100) else if 1 < r then - f32 (1 / 100) else inc) \<and>
            fst (color_cycle (r, inc)) = f32_add r (snd (color_cycle (r, inc)))) \<and>
   (\<forall>drv n app w app' w'. frames drv n app w = Inr (app', w') \<longrightarrow>
      (render_r app', m_Increment app') = (color_cycle ^^ n) (render_r app, m_Increment app) \<and>
      (\<exists>new. calls w' = calls w @ new \<and>
         (\<forall>c \<in> set new. \<forall>l r g b a. c = GlUniform4f l r g b a \<longrightarrow>
            g = f32 (3 / 10) \<and> b = f32 (8 / 10) \<and> a = f32 1))) \<and>
   (\<forall>n<20. fst (color_after n) < 1 \<and> fst (color_after n) < fst (color_after (Suc n))) \<and>
   1 \<le> fst (color_after 20) \<and>
   (\<forall>n. 20 \<le> n \<and> n < 121 \<longrightarrow>
      fst (color_after (Suc n)) < fst (color_after n) \<and>
      snd (color_after (Suc n)) = - f32 (1 / 100)) \<and>
   fst (color_after 121) < 0 \<and>
   (\<forall>n. 121 \<le> n \<and> n < 222 \<longrightarrow>
      fst (color_after n) < fst (color_after (Suc n)) \<and>
      snd (color_after (Suc n)) = f32 (1 / 100)) \<and>
   1 < fst (color_after 222) \<and>
   (\<forall>n. 21 \<le> n \<longrightarrow> color_after (n + 202) = color_after n)"
proof (intro conjI allI impI)
  show "render_r Application_new = 0"
    by (simp add: Application_new_def f32_zero)
  show "m_Increment Application_new = f32 (5 / 100)"
    unfolding Application_new_def by (simp only: Application.select_convs)
next
  fix r inc :: float32
  show "snd (color_cycle (r, inc))
          = (if r < 0 then f32 (1 / 100) else if 1 < r then - f32 (1 / 100) else inc)"
    unfolding color_cycle_def Let_def fst_conv snd_conv by (simp only: if_distrib) auto
  show "fst (color_cycle (r, inc)) = f32_add r (snd (color_cycle (r, inc)))"
    unfolding color_cycle_def Let_def fst_conv snd_conv ..
next
  fix drv n app w app' w'
  assume f: "frames drv n app w = Inr (app', w')"
  from frames_returns [OF f]
  show "(render_r app', m_Increment app') = (color_cycle ^^ n) (render_r app, m_Increment app)"
    by blast
  from frames_returns [OF f] obtain new where
    n: "calls w' = calls w @ new" and c: "\<forall>c \<in> set new. frame_call (m_UniformLoc app) c"
    by blast
  from c have "\<forall>c \<in> set new. \<forall>l r g b a. c = GlUniform4f l r g b a \<longrightarrow>
            g = f32 (3 / 10) \<and> b = f32 (8 / 10) \<and> a = f32 1"
    by (auto simp: frame_call_def)
  with n show "\<exists>new. calls w' = calls w @ new \<and>
         (\<forall>c \<in> set new. \<forall>l r g b a. c = GlUniform4f l r g b a \<longrightarrow>
            g = f32 (3 / 10) \<and> b = f32 (8 / 10) \<and> a = f32 1)"
    by blast
next
  fix n :: nat
  assume "n < 20"
  from state_after_first_rise [OF this]
  show "fst (color_after n) < 1" and "fst (color_after n) < fst (color_after (Suc n))"
    by (simp_all only: color_after_fst units_less units_less_one)
next
  have "(2 ^ 149 :: int) \<le> 8388609 * 2 ^ 126" by simp
  then have "units (2 ^ 149) \<le> units (8388609 * 2 ^ 126)"
    by (simp only: units_less linorder_not_less [symmetric] not_False_eq_True)
  then show "1 \<le> fst (color_after 20)"
    by (simp only: color_after_fst state_20 fst_conv units_one)
next
  fix n :: nat
  assume "20 \<le> n \<and> n < 121"
  then have "20 \<le> n" and "n < 121" by simp_all
  from state_after_fall [OF this]
  show "fst (color_after (Suc n)) < fst (color_after n)"
    and "snd (color_after (Suc n)) = - f32 (1 / 100)"
    by (simp_all only: color_after_fst color_after_snd units_less f32_one_hundredth units_minus)
next
  have "- (5368285 * 2 ^ 120) < (0 :: int)" by simp
  then show "fst (color_after 121) < 0"
    by (simp only: color_after_fst state_121 fst_conv less_units_zero)
next
  fix n :: nat
  assume "121 \<le> n \<and> n < 222"
  then have "121 \<le> n" and "n < 222" by simp_all
  from state_after_rise [OF this]
  show "fst (color_after n) < fst (color_after (Suc n))"
    and "snd (color_after (Suc n)) = f32 (1 / 100)"
    by (simp_all only: color_after_fst color_after_snd units_less f32_one_hundredth)
next
  have "(2 ^ 149 :: int) < 8388609 * 2 ^ 126" by simp
  then show "1 < fst (color_after 222)"
    by (simp only: color_after_fst state_222 fst_conv one_less_units)
next
  fix n :: nat
  assume "21 \<le> n"
  from state_after_period [OF this] show "color_after (n + 202) = color_after n"
    by (simp only: color_after_units)
qed

text \<open>
  The theorem at the frames where the step flips, and for three frames drawn with a
  driver whose error check never fires.
\<close>

theorem color_cycle_oscillates_witness:
  "1 \<le> fst (color_after 20) \<and>
   snd (color_after 21) = - f32 (1 / 100) \<and> fst (color_after 22) < fst (color_after 21) \<and>
   fst (color_after 121) < 0 \<and>
   snd (color_after 122) = f32 (1 / 100) \<and> fst (color_after 122) < fst (color_after 123) \<and>
   color_after 223 = color_after 21 \<and>
   (\<exists>app' w'. frames driver_accepting 3 app_ready world_start = Inr (app', w') \<and>
      (render_r app', m_Increment app') = color_after 3)"
proof -
  note t = color_cycle_oscillates
  have r: "va app_ready = Some VertexArray" "ib app_ready = Some quad_ib"
    "render_r app_ready = render_r Application_new" "m_Increment app_ready = m_Increment Application_new"
    by (simp_all add: app_ready_def)
  from frames_ok [OF accepting_ok r(1,2)] obtain app' w' where
    f: "frames driver_accepting 3 app_ready world_start = Inr (app', w')"
    by blast
  with t have "(render_r app', m_Increment app') = (color_cycle ^^ 3) (render_r app_ready, m_Increment app_ready)"
    by blast
  then have c: "(render_r app', m_Increment app') = color_after 3"
    by (simp only: r color_after_def)
  from t have a: "1 \<le> fst (color_after 20)" and b: "fst (color_after 121) < 0"
    by blast+
  from t have "20 \<le> (20::nat) \<and> (20::nat) < 121 \<longrightarrow> snd (color_after (Suc 20)) = - f32 (1 / 100)"
    by blast
  then have d: "snd (color_after 21) = - f32 (1 / 100)" by simp
  from t have "20 \<le> (21::nat) \<and> (21::nat) < 121 \<longrightarrow> fst (color_after (Suc 21)) < fst (color_after 21)"
    by blast
  then have e: "fst (color_after 22) < fst (color_after 21)" by simp
  from t have "121 \<le> (121::nat) \<and> (121::nat) < 222 \<longrightarrow> snd (color_after (Suc 121)) = f32 (1 / 100)"
    by blast
  then have g: "snd (color_after 122) = f32 (1 / 100)" by simp
  from t have "121 \<le> (122::nat) \<and> (122::nat) < 222 \<longrightarrow> fst (color_after 122) < fst (color_after (Suc 122))"
    by blast
  then have h: "fst (color_after 122) < fst (color_after 123)" by simp
  from t have "21 \<le> (21::nat) \<longrightarrow> color_after (21 + 202) = color_after 21"
    by blast
  then have i: "color_after 223 = color_after 21" by simp
  from a b c d e f g h i show ?thesis by blast
qed

end
